theory Spec2Isabelle
  imports Complex_Main "HOL-Library.Multiset" "HOL-Library.Sublist" "HOL-Library.AList"
    "HOL-Library.Char_ord" "HOL-Library.List_Lexorder"
begin

section \<open>JavaScript values\<close>

text \<open>
  Every remote result of the client is typed \<open>any\<close>: it is whatever \<open>JSON.parse\<close>
  produced from the tool's text, the text itself, or the raw content array. The model
  keeps the run-time value. Numbers are the integral ones (the page counter, limits);
  an object is the list of its own properties, each key once, in insertion order.
\<close>

datatype jsval =
    JUndefined
  | JNull
  | JBool bool
  | JNum int
  | JStr string
  | JArr "jsval list"
  | JObj "(string \<times> jsval) list"

text \<open>
  What a rejected promise carries: the \<open>TypeError\<close> the runtime raises on a property
  read from \<open>null\<close>/\<open>undefined\<close> or on spreading a non-iterable, and the \<open>Error\<close> that
  \<open>callTool\<close> throws with the tool's message.
\<close>

datatype error = TypeError | ToolError string

text \<open>
  A value of type \<open>number\<close> as a caller may pass it for \<open>maxPages\<close>: every finite
  double is a rational number, and besides those there are the two infinities and
  \<open>NaN\<close>. Nothing in \<open>getAllOrders\<close> checks that the bound is integral or finite.
\<close>

datatype jsnum = Num rat | PosInf | NegInf | NaN

text \<open>
  \<open>n < b\<close> for an integral count \<open>n\<close> and a number \<open>b\<close>: a comparison with \<open>NaN\<close> is
  false, every count is below \<open>Infinity\<close> and none is below \<open>-Infinity\<close>.
\<close>

fun count_below :: "int \<Rightarrow> jsnum \<Rightarrow> bool" where
  "count_below n (Num q) = (of_int n < q)"
| "count_below n PosInf = True"
| "count_below n NegInf = False"
| "count_below n NaN = False"

text \<open>\<open>b <= 0\<close> for a number \<open>b\<close>.\<close>

fun js_le_zero :: "jsnum \<Rightarrow> bool" where
  "js_le_zero (Num q) = (q \<le> 0)"
| "js_le_zero PosInf = False"
| "js_le_zero NegInf = True"
| "js_le_zero NaN = False"

text \<open>Truthiness, as \<open>if (x)\<close> and \<open>x && y\<close> read a value.\<close>

fun truthy :: "jsval \<Rightarrow> bool" where
  "truthy JUndefined = False"
| "truthy JNull = False"
| "truthy (JBool b) = b"
| "truthy (JNum n) = (n \<noteq> 0)"
| "truthy (JStr s) = (s \<noteq> [])"
| "truthy (JArr xs) = True"
| "truthy (JObj fs) = True"

fun nullish :: "jsval \<Rightarrow> bool" where
  "nullish JUndefined = True"
| "nullish JNull = True"
| "nullish v = False"

text \<open>\<open>a ?? b\<close>\<close>

definition nullish_or :: "jsval \<Rightarrow> jsval \<Rightarrow> jsval" where
  "nullish_or a b = (if nullish a then b else a)"

text \<open>\<open>Array.isArray(x)\<close>\<close>

fun isArray :: "jsval \<Rightarrow> bool" where
  "isArray (JArr xs) = True"
| "isArray v = False"

text \<open>
  \<open>x.name\<close> for the property names this client reads (\<open>orders\<close>, \<open>pageInfo\<close>,
  \<open>hasNextPage\<close>, \<open>endCursor\<close>), none of which is a built-in property of a string,
  number, boolean or array: reading it from \<open>null\<close> or \<open>undefined\<close> throws, from an
  object it gives the own property or \<open>undefined\<close>, from anything else \<open>undefined\<close>.
\<close>

fun get_field :: "jsval \<Rightarrow> string \<Rightarrow> error + jsval" where
  "get_field JUndefined name = Inl TypeError"
| "get_field JNull name = Inl TypeError"
| "get_field (JObj fs) name = Inr (case map_of fs name of None \<Rightarrow> JUndefined | Some v \<Rightarrow> v)"
| "get_field v name = Inr JUndefined"

text \<open>\<open>x?.name\<close>: \<open>undefined\<close> when \<open>x\<close> is nullish, so it never throws.\<close>

definition opt_field :: "jsval \<Rightarrow> string \<Rightarrow> jsval" where
  "opt_field x name = (case get_field x name of Inl e \<Rightarrow> JUndefined | Inr v \<Rightarrow> v)"

text \<open>
  \<open>...x\<close> in an argument list iterates \<open>x\<close>: an array gives its elements, a string its
  characters, and a number, boolean or plain object is not iterable.
\<close>

fun spread :: "jsval \<Rightarrow> error + jsval list" where
  "spread (JArr xs) = Inr xs"
| "spread (JStr s) = Inr (map (\<lambda>c. JStr [c]) s)"
| "spread v = Inl TypeError"

section \<open>The pagination loop of \<open>getAllOrders\<close>\<close>

text \<open>The argument object of \<open>getOrders\<close>; an absent property is \<open>undefined\<close>.\<close>

record orders_options =
  status :: jsval
  limit :: jsval
  sortKey :: jsval
  reverse :: jsval
  after :: jsval
  query :: jsval

text \<open>
  The argument object of \<open>getAllOrders\<close>. \<open>maxPages\<close> is a number or absent; a call
  without any options is the record with every property absent.
\<close>

record all_orders_options =
  ao_status :: jsval
  ao_sortKey :: jsval
  ao_reverse :: jsval
  ao_query :: jsval
  ao_maxPages :: "jsnum option"

text \<open>
  The local variables of \<open>getAllOrders\<close>. \<open>pageCount\<close> starts at 0 and is only ever
  changed by \<open>pageCount++\<close>, so it is an integer.
\<close>

record loop_state =
  allOrders :: "jsval list"
  cursor :: jsval
  hasNextPage :: jsval
  pageCount :: int

record all_orders_result =
  orders :: "jsval list"
  totalFetched :: nat
  hasMore :: jsval

text \<open>
  \<open>this.getOrders\<close> as the loop sees it: an operation on the state \<open>'w\<close> of everything
  outside the loop (the cache, the remote store, the clock) that resolves to a value or
  rejects.
\<close>

type_synonym 'w page_fetcher = "'w \<Rightarrow> orders_options \<Rightarrow> (error + jsval) \<times> 'w"

text \<open>
  \<open>pageCount++\<close> on a counter that started at 0. The counter is a double: up to
  \<open>2^53\<close> every integer is a double and adding one is exact; \<open>2^53 + 1\<close> is not a
  double and the sum rounds back to \<open>2^53\<close> (to nearest, ties to even), so from there
  on the counter stays where it is.
\<close>

definition js_incr :: "int \<Rightarrow> int" where
  "js_incr n = (if n < 2 ^ 53 then n + 1 else n)"

text \<open>The body of the loop after the \<open>await\<close>, up to and without \<open>pageCount++\<close>.\<close>

definition handle_response :: "jsval \<Rightarrow> loop_state \<Rightarrow> error + loop_state" where
  "handle_response result st =
     (if isArray result then
        (case spread result of
           Inl e \<Rightarrow> Inl e
         | Inr xs \<Rightarrow> Inr (st\<lparr>allOrders := allOrders st @ xs, hasNextPage := JBool False\<rparr>))
      else
        (case get_field result ''orders'' of
           Inl e \<Rightarrow> Inl e
         | Inr ords \<Rightarrow>
             if truthy ords then
               (case spread ords of
                  Inl e \<Rightarrow> Inl e
                | Inr xs \<Rightarrow>
                    Inr (st\<lparr>allOrders := allOrders st @ xs,
                            hasNextPage :=
                              nullish_or (opt_field (opt_field result ''pageInfo'') ''hasNextPage'')
                                (JBool False),
                            cursor := opt_field (opt_field result ''pageInfo'') ''endCursor''\<rparr>))
             else
               Inr (st\<lparr>allOrders := allOrders st @ [result], hasNextPage := JBool False\<rparr>)))"

definition page_request :: "all_orders_options \<Rightarrow> jsval \<Rightarrow> orders_options" where
  "page_request options cur =
     \<lparr>status = ao_status options,
      limit = JNum 250,
      sortKey = nullish_or (ao_sortKey options) (JStr ''CREATED_AT''),
      reverse = nullish_or (ao_reverse options) (JBool True),
      after = cur,
      query = ao_query options\<rparr>"

text \<open>
  The \<open>while\<close> loop. With a bound that the counter never reaches, such as
  \<open>Infinity\<close>, nothing but the source ends it, so the loop is a partial function:
  \<open>None\<close> is the run that never returns.
\<close>

partial_function (option) getAllOrders_loop ::
  "'w page_fetcher \<Rightarrow> all_orders_options \<Rightarrow> jsnum \<Rightarrow> loop_state \<Rightarrow> 'w \<Rightarrow>
   ((error + loop_state) \<times> 'w) option"
where
  "getAllOrders_loop getOrders options maxPages st w =
     (if truthy (hasNextPage st) \<and> count_below (pageCount st) maxPages then
        (case getOrders w (page_request options (cursor st)) of
           (Inl e, w') \<Rightarrow> Some (Inl e, w')
         | (Inr result, w') \<Rightarrow>
             (case handle_response result st of
                Inl e \<Rightarrow> Some (Inl e, w')
              | Inr st' \<Rightarrow>
                  getAllOrders_loop getOrders options maxPages
                    (st'\<lparr>pageCount := js_incr (pageCount st')\<rparr>) w'))
      else Some (Inr st, w))"

text \<open>The state at loop entry, and \<open>options?.maxPages ?? 10\<close>.\<close>

definition initial_state :: loop_state where
  "initial_state =
     \<lparr>allOrders = [], cursor = JUndefined, hasNextPage = JBool True, pageCount = 0\<rparr>"

definition effective_maxPages :: "all_orders_options \<Rightarrow> jsnum" where
  "effective_maxPages options = (case ao_maxPages options of None \<Rightarrow> Num 10 | Some b \<Rightarrow> b)"

definition getAllOrders ::
  "'w page_fetcher \<Rightarrow> all_orders_options \<Rightarrow> 'w \<Rightarrow> ((error + all_orders_result) \<times> 'w) option"
where
  "getAllOrders getOrders options w =
     (case getAllOrders_loop getOrders options (effective_maxPages options) initial_state w of
        None \<Rightarrow> None
      | Some (Inl e, w') \<Rightarrow> Some (Inl e, w')
      | Some (Inr st, w') \<Rightarrow>
          Some (Inr \<lparr>orders = allOrders st, totalFetched = length (allOrders st),
                      hasMore = hasNextPage st\<rparr>, w'))"

text \<open>
  An observer for the fetches of one run: the fetcher wrapped so that the outside state
  also carries the list of requests made and their outcomes, oldest first. The wrapped
  fetcher answers as the original does.
\<close>

definition recording ::
  "'w page_fetcher \<Rightarrow> ((orders_options \<times> (error + jsval)) list \<times> 'w) page_fetcher"
where
  "recording getOrders = (\<lambda>(lg, w) req.
     case getOrders w req of (r, w') \<Rightarrow> (r, (lg @ [(req, r)], w')))"

text \<open>
  What one response contributes, read off \<open>handle_response\<close>: the items it appends (or
  the \<open>TypeError\<close> it raises), the value \<open>hasNextPage\<close> takes, and the cursor kept for
  the next request.
\<close>

definition page_items :: "jsval \<Rightarrow> error + jsval list" where
  "page_items result =
     (if isArray result then spread result
      else case get_field result ''orders'' of
             Inl e \<Rightarrow> Inl e
           | Inr ords \<Rightarrow> if truthy ords then spread ords else Inr [result])"

definition page_hasNextPage :: "jsval \<Rightarrow> jsval" where
  "page_hasNextPage result =
     (if \<not> isArray result \<and> truthy (opt_field result ''orders'')
      then nullish_or (opt_field (opt_field result ''pageInfo'') ''hasNextPage'') (JBool False)
      else JBool False)"

definition page_cursor :: "jsval \<Rightarrow> jsval \<Rightarrow> jsval" where
  "page_cursor result cur =
     (if \<not> isArray result \<and> truthy (opt_field result ''orders'')
      then opt_field (opt_field result ''pageInfo'') ''endCursor''
      else cur)"

text \<open>
  One completed iteration: the response handled and \<open>pageCount++\<close> done, for a
  response whose items are \<open>xs\<close>.
\<close>

definition next_state :: "loop_state \<Rightarrow> jsval \<Rightarrow> jsval list \<Rightarrow> loop_state" where
  "next_state st result xs =
     st\<lparr>allOrders := allOrders st @ xs, hasNextPage := page_hasNextPage result,
        cursor := page_cursor result (cursor st),
        pageCount := js_incr (pageCount st)\<rparr>"

text \<open>
  The same readings on an entry of the fetch log: a rejected fetch contributes no items
  and reports no further page.
\<close>

definition outcome_items :: "error + jsval \<Rightarrow> error + jsval list" where
  "outcome_items r = (case r of Inl e \<Rightarrow> Inl e | Inr page \<Rightarrow> page_items page)"

definition outcome_hasNextPage :: "error + jsval \<Rightarrow> jsval" where
  "outcome_hasNextPage r =
     (case r of Inl e \<Rightarrow> JBool False | Inr page \<Rightarrow> page_hasNextPage page)"

definition log_items :: "orders_options \<times> (error + jsval) \<Rightarrow> jsval list" where
  "log_items x = (case outcome_items (snd x) of Inl e \<Rightarrow> [] | Inr xs \<Rightarrow> xs)"

section \<open>The cache\<close>

text \<open>
  \<open>PluginCache\<close>, \<open>TTL\<close> and \<open>createCacheKey\<close> are imported from the package
  \<open>@local/plugin-cache\<close>, whose code is not part of the sources at hand; the client below
  only calls them. Everything in this section follows the spec's description of that
  package.
\<close>

text \<open>
  Modelled from the spec: \<open>CacheEntry\<close> of \<open>@local/plugin-cache\<close>, the cached payload
  with the absolute time at which it turns stale and the time of insertion.
\<close>

record cache_entry =
  val :: jsval
  expiresAt :: int
  storedAt :: int

text \<open>Modelled from the spec: the \<open>stats\<close> counters of the \<open>CacheStore\<close>.\<close>

record cache_stats =
  hits :: nat
  misses :: nat
  sets :: nat
  invalidations :: nat

text \<open>
  Modelled from the spec: the \<open>CacheStore\<close> of \<open>PluginCache\<close>, a mapping from keys to
  entries (each key at most once), the global \<open>enabled\<close> flag and the counters.
\<close>

record cache_store =
  entries :: "(string \<times> cache_entry) list"
  enabled :: bool
  stats :: cache_stats

text \<open>Modelled from the spec: the \<open>options{ttl, bypassCache}\<close> argument of \<open>getOrFetch\<close>.\<close>

record fetch_options =
  ttl :: int
  bypassCache :: bool

text \<open>
  Modelled from the spec: \<open>TTL.FIVE_MINUTES\<close> of \<open>@local/plugin-cache\<close>, in the time
  unit of the spec's scenario, where the five-minute window of \<open>getOrders\<close> is 300 units.
\<close>

definition TTL_FIVE_MINUTES :: int where
  "TTL_FIVE_MINUTES = 300"

text \<open>Modelled from the spec: \<open>TTL.FIFTEEN_MINUTES\<close>, in the same unit.\<close>

definition TTL_FIFTEEN_MINUTES :: int where
  "TTL_FIFTEEN_MINUTES = 900"

text \<open>Modelled from the spec: \<open>TTL.HOUR\<close>, in the same unit.\<close>

definition TTL_HOUR :: int where
  "TTL_HOUR = 3600"

text \<open>
  Modelled from the spec: the canonical form of a parameter value inside a cache key,
  which the spec leaves to the implementation. Here: the decimal digits of a number.
\<close>

fun show_nat :: "nat \<Rightarrow> string" where
  "show_nat n =
     (if n < 10 then [''0123456789'' ! n]
      else show_nat (n div 10) @ [''0123456789'' ! (n mod 10)])"

text \<open>Modelled from the spec: the canonical form of a (possibly negative) number.\<close>

definition show_int :: "int \<Rightarrow> string" where
  "show_int i = (if i < 0 then ''-'' @ show_nat (nat (- i)) else show_nat (nat i))"

text \<open>Modelled from the spec: the serialised parts of a key, put together with a separator.\<close>

fun join :: "string \<Rightarrow> string list \<Rightarrow> string" where
  "join sep [] = []"
| "join sep [x] = x"
| "join sep (x # y # ys) = x @ sep @ join sep (y # ys)"

text \<open>
  Modelled from the spec: the canonical form of any parameter value; a string stands for
  itself.
\<close>

fun render :: "jsval \<Rightarrow> string" where
  "render JUndefined = ''undefined''"
| "render JNull = ''null''"
| "render (JBool b) = (if b then ''true'' else ''false'')"
| "render (JNum n) = show_int n"
| "render (JStr s) = s"
| "render (JArr xs) = ''['' @ join '','' (map render xs) @ '']''"
| "render (JObj fs) = ''{'' @ join '','' (map (\<lambda>(k, v). k @ '':'' @ render v) fs) @ ''}''"

text \<open>
  Modelled from the spec: a parameter whose value is absent (\<open>undefined\<close>) is not
  \<open>present\<close> and is omitted from the key.
\<close>

definition present :: "string \<times> jsval \<Rightarrow> bool" where
  "present p = (snd p \<noteq> JUndefined)"

text \<open>
  Modelled from the spec: \<open>createCacheKey(namespace, params)\<close> of
  \<open>@local/plugin-cache\<close>. The spec asks for three things: parameters whose value is absent
  are omitted, the remaining ones are serialised in an order that does not depend on
  insertion order, and the namespace is a textual prefix of the key
  (\<open>"orders:status=open"\<close>, \<open>"order:id=42"\<close>). The parameter object is the list of its
  properties in insertion order; the serialisation sorts them by name.
\<close>

definition createCacheKey :: "string \<Rightarrow> (string \<times> jsval) list \<Rightarrow> string" where
  "createCacheKey namespace params =
     namespace @ '':'' @
       join ''&'' (map (\<lambda>(k, v). k @ ''='' @ render v) (sort_key fst (filter present params)))"

text \<open>
  Modelled from the spec: the lookup inside \<open>getOrFetch\<close>. An entry is stale once the
  current time has reached \<open>expiresAt\<close> (a TTL of zero is immediately stale), and a stale
  entry is treated as absent.
\<close>

definition cache_lookup :: "cache_store \<Rightarrow> int \<Rightarrow> string \<Rightarrow> cache_entry option" where
  "cache_lookup store now key =
     (case map_of (entries store) key of
        None \<Rightarrow> None
      | Some e \<Rightarrow> if now < expiresAt e then Some e else None)"

text \<open>
  Modelled from the spec: the write inside \<open>getOrFetch\<close>, which replaces whatever entry
  the key had.
\<close>

definition cache_put ::
  "string \<Rightarrow> cache_entry \<Rightarrow> (string \<times> cache_entry) list \<Rightarrow> (string \<times> cache_entry) list"
where
  "cache_put key e es = (key, e) # filter (\<lambda>p. fst p \<noteq> key) es"

text \<open>
  Modelled from the spec: \<open>getOrFetch(key, fetchFn, {ttl, bypassCache})\<close> at time \<open>now\<close>.
  With \<open>bypassCache\<close> or a disabled store the fetch runs and the store is neither read nor
  written. Otherwise a fresh entry is returned without running the fetch (a hit); an
  absent or stale one runs the fetch, and only a successful result is stored, with
  \<open>expiresAt = now + ttl\<close>. A failure of the fetch is propagated and not cached.
\<close>

definition getOrFetch ::
  "string \<Rightarrow> ('w \<Rightarrow> (error + jsval) \<times> 'w) \<Rightarrow> fetch_options \<Rightarrow> int \<Rightarrow>
   cache_store \<times> 'w \<Rightarrow> (error + jsval) \<times> cache_store \<times> 'w"
where
  "getOrFetch key fetchFn opts now sw =
     (case sw of (store, w) \<Rightarrow>
        if bypassCache opts \<or> \<not> enabled store then
          (case fetchFn w of (r, w') \<Rightarrow> (r, store, w'))
        else
          (case cache_lookup store now key of
             Some e \<Rightarrow>
               (Inr (val e), store\<lparr>stats := (stats store)\<lparr>hits := hits (stats store) + 1\<rparr>\<rparr>, w)
           | None \<Rightarrow>
               (case fetchFn w of
                  (Inl err, w') \<Rightarrow>
                    (Inl err,
                     store\<lparr>stats := (stats store)\<lparr>misses := misses (stats store) + 1\<rparr>\<rparr>, w')
                | (Inr v, w') \<Rightarrow>
                    (Inr v,
                     store\<lparr>entries :=
                              cache_put key \<lparr>val = v, expiresAt = now + ttl opts, storedAt = now\<rparr>
                                (entries store),
                           stats := (stats store)\<lparr>misses := misses (stats store) + 1,
                                                  sets := sets (stats store) + 1\<rparr>\<rparr>,
                     w'))))"

text \<open>
  Modelled from the spec: \<open>invalidatePattern(pattern)\<close> removes every entry whose key
  matches and returns how many it removed. The client only passes the regular expressions
  \<open>/^order/\<close>, \<open>/^products/\<close> and \<open>/^customer/\<close>, each a literal anchored at the start of
  the key; the pattern is that literal and matching is \<open>prefix\<close>.
\<close>

definition invalidatePattern :: "string \<Rightarrow> cache_store \<Rightarrow> nat \<times> cache_store" where
  "invalidatePattern pattern store =
     (let removed = length (filter (\<lambda>p. prefix pattern (fst p)) (entries store)) in
      (removed,
       store\<lparr>entries := filter (\<lambda>p. \<not> prefix pattern (fst p)) (entries store),
             stats := (stats store)\<lparr>invalidations := invalidations (stats store) + removed\<rparr>\<rparr>))"

text \<open>
  Modelled from the spec: \<open>disable()\<close> of \<open>PluginCache\<close>, which only switches the global
  bypass on and removes nothing.
\<close>

definition cache_disable :: "cache_store \<Rightarrow> cache_store" where
  "cache_disable store = store\<lparr>enabled := False\<rparr>"

text \<open>Modelled from the spec: \<open>enable()\<close> of \<open>PluginCache\<close>, which ends the global bypass.\<close>

definition cache_enable :: "cache_store \<Rightarrow> cache_store" where
  "cache_enable store = store\<lparr>enabled := True\<rparr>"

section \<open>The client\<close>

text \<open>
  The module-level \<open>cache\<close>, the client's \<open>cacheDisabled\<close> flag, and the state \<open>'w\<close> of
  the MCP server behind \<open>callTool\<close>. \<open>callTool\<close> itself is the remote collaborator: given
  the tool's name and its argument object it resolves to a value or throws.
\<close>

record 'w client =
  cache :: cache_store
  cacheDisabled :: bool
  remote :: 'w

type_synonym 'w tool = "'w \<Rightarrow> string \<Rightarrow> (string \<times> jsval) list \<Rightarrow> (error + jsval) \<times> 'w"

definition disableCache :: "'w client \<Rightarrow> 'w client" where
  "disableCache c = c\<lparr>cacheDisabled := True, cache := cache_disable (cache c)\<rparr>"

definition enableCache :: "'w client \<Rightarrow> 'w client" where
  "enableCache c = c\<lparr>cacheDisabled := False, cache := cache_enable (cache c)\<rparr>"

text \<open>\<open>if (cond) args.name = v\<close> on the argument object being built.\<close>

definition arg_if :: "bool \<Rightarrow> string \<Rightarrow> jsval \<Rightarrow> (string \<times> jsval) list" where
  "arg_if cond name v = (if cond then [(name, v)] else [])"

text \<open>\<open>{ ...base, ...ext }\<close>: a property of \<open>ext\<close> replaces one of that name or is added.\<close>

definition object_spread ::
  "(string \<times> jsval) list \<Rightarrow> (string \<times> jsval) list \<Rightarrow> (string \<times> jsval) list"
where
  "object_spread base ext = fold (\<lambda>(k, v). AList.update k v) ext base"

text \<open>Running a cached read on the client's state.\<close>

definition cached_read ::
  "string \<Rightarrow> ('w \<Rightarrow> (error + jsval) \<times> 'w) \<Rightarrow> int \<Rightarrow> int \<Rightarrow> 'w client \<Rightarrow>
   (error + jsval) \<times> 'w client"
where
  "cached_read cacheKey fetchFn t now c =
     (case getOrFetch cacheKey fetchFn \<lparr>ttl = t, bypassCache = cacheDisabled c\<rparr> now
             (cache c, remote c) of
        (r, store', w') \<Rightarrow> (r, c\<lparr>cache := store', remote := w'\<rparr>))"

definition orders_key :: "orders_options \<Rightarrow> string" where
  "orders_key options =
     createCacheKey ''orders''
       [(''status'', status options), (''limit'', limit options),
        (''sortKey'', sortKey options), (''reverse'', reverse options),
        (''after'', after options), (''query'', query options)]"

definition orders_args :: "orders_options \<Rightarrow> (string \<times> jsval) list" where
  "orders_args options =
     arg_if (truthy (status options)) ''status'' (status options) @
     arg_if (truthy (limit options)) ''first'' (limit options) @
     arg_if (truthy (sortKey options)) ''sortKey'' (sortKey options) @
     arg_if (reverse options \<noteq> JUndefined) ''reverse'' (reverse options) @
     arg_if (truthy (after options)) ''after'' (after options) @
     arg_if (truthy (query options)) ''query'' (query options)"

definition getOrders ::
  "'w tool \<Rightarrow> int \<Rightarrow> orders_options \<Rightarrow> 'w client \<Rightarrow> (error + jsval) \<times> 'w client"
where
  "getOrders callTool now options c =
     cached_read (orders_key options)
       (\<lambda>w. callTool w ''get-orders'' (orders_args options))
       TTL_FIVE_MINUTES now c"

text \<open>
  \<open>this.getOrders\<close> as the page fetcher of \<open>getAllOrders\<close>: the state outside the loop
  is the client together with the number of fetches made so far, and \<open>clock n\<close> is the
  time at which fetch number \<open>n\<close> consults the cache.
\<close>

definition getOrders_at :: "'w tool \<Rightarrow> (nat \<Rightarrow> int) \<Rightarrow> (nat \<times> 'w client) page_fetcher" where
  "getOrders_at callTool clock = (\<lambda>(n, c) req.
     case getOrders callTool (clock n) req c of (r, c') \<Rightarrow> (r, (Suc n, c')))"

definition getOrderById ::
  "'w tool \<Rightarrow> int \<Rightarrow> string \<Rightarrow> 'w client \<Rightarrow> (error + jsval) \<times> 'w client"
where
  "getOrderById callTool now orderId c =
     cached_read (createCacheKey ''order'' [(''id'', JStr orderId)])
       (\<lambda>w. callTool w ''get-order-by-id'' [(''orderId'', JStr orderId)])
       TTL_FIVE_MINUTES now c"

text \<open>
  The four mutations: \<open>await this.callTool(...)\<close>, then \<open>cache.invalidatePattern(...)\<close>,
  then \<open>return result\<close>. A rejected \<open>await\<close> leaves the function at once.
\<close>

definition createProduct ::
  "'w tool \<Rightarrow> (string \<times> jsval) list \<Rightarrow> 'w client \<Rightarrow> (error + jsval) \<times> 'w client"
where
  "createProduct callTool product c =
     (case callTool (remote c) ''createProduct'' product of
        (Inl e, w') \<Rightarrow> (Inl e, c\<lparr>remote := w'\<rparr>)
      | (Inr result, w') \<Rightarrow>
          (Inr result, c\<lparr>cache := snd (invalidatePattern ''products'' (cache c)), remote := w'\<rparr>))"

definition updateCustomer ::
  "'w tool \<Rightarrow> string \<Rightarrow> (string \<times> jsval) list \<Rightarrow> 'w client \<Rightarrow> (error + jsval) \<times> 'w client"
where
  "updateCustomer callTool customerId updates c =
     (case callTool (remote c) ''update-customer''
             (object_spread [(''id'', JStr customerId)] updates) of
        (Inl e, w') \<Rightarrow> (Inl e, c\<lparr>remote := w'\<rparr>)
      | (Inr result, w') \<Rightarrow>
          (Inr result, c\<lparr>cache := snd (invalidatePattern ''customer'' (cache c)), remote := w'\<rparr>))"

definition updateFulfillmentTracking ::
  "'w tool \<Rightarrow> string \<Rightarrow> string \<Rightarrow> (string \<times> jsval) list \<Rightarrow> 'w client \<Rightarrow>
   (error + jsval) \<times> 'w client"
where
  "updateFulfillmentTracking callTool fulfillmentId trackingNumber options c =
     (case callTool (remote c) ''update-fulfillment-tracking''
             (object_spread
                [(''fulfillmentId'', JStr fulfillmentId), (''trackingNumber'', JStr trackingNumber)]
                options) of
        (Inl e, w') \<Rightarrow> (Inl e, c\<lparr>remote := w'\<rparr>)
      | (Inr result, w') \<Rightarrow>
          (Inr result, c\<lparr>cache := snd (invalidatePattern ''order'' (cache c)), remote := w'\<rparr>))"

definition updateOrder ::
  "'w tool \<Rightarrow> string \<Rightarrow> (string \<times> jsval) list \<Rightarrow> 'w client \<Rightarrow> (error + jsval) \<times> 'w client"
where
  "updateOrder callTool orderId updates c =
     (case callTool (remote c) ''update-order''
             (object_spread [(''id'', JStr orderId)] updates) of
        (Inl e, w') \<Rightarrow> (Inl e, c\<lparr>remote := w'\<rparr>)
      | (Inr result, w') \<Rightarrow>
          (Inr result, c\<lparr>cache := snd (invalidatePattern ''order'' (cache c)), remote := w'\<rparr>))"

text \<open>
  An observer for the remote calls: the tool wrapped so that the server's state also
  carries the list of calls made, oldest first.
\<close>

definition recording_tool :: "'w tool \<Rightarrow> ((string \<times> (string \<times> jsval) list) list \<times> 'w) tool" where
  "recording_tool callTool = (\<lambda>(lg, w) name args.
     case callTool w name args of (r, w') \<Rightarrow> (r, (lg @ [(name, args)], w')))"

section \<open>Sample sources, tools and stores\<close>

text \<open>
  Concrete collaborators on which the theorems below are instantiated. A source's state
  is the number of pages it has served; a tool's state is the number of calls it has
  answered.
\<close>

definition default_options :: all_orders_options where
  "default_options =
     \<lparr>ao_status = JUndefined, ao_sortKey = JUndefined, ao_reverse = JUndefined,
      ao_query = JUndefined, ao_maxPages = None\<rparr>"

definition sample_page :: "nat \<Rightarrow> bool \<Rightarrow> jsval" where
  "sample_page n nxt =
     JObj [(''orders'', JArr [JNum (int n)]),
           (''pageInfo'', JObj [(''hasNextPage'', JBool nxt), (''endCursor'', JStr ''next'')])]"

text \<open>
  A page whose \<open>pageInfo.hasNextPage\<close> is an arbitrary value, and the source that serves
  such pages.
\<close>

definition flag_page :: "jsval \<Rightarrow> nat \<Rightarrow> jsval" where
  "flag_page flag n =
     JObj [(''orders'', JArr [JNum (int n)]),
           (''pageInfo'', JObj [(''hasNextPage'', flag), (''endCursor'', JStr ''next'')])]"

definition flag_source :: "jsval \<Rightarrow> nat page_fetcher" where
  "flag_source flag n req = (Inr (flag_page flag n), Suc n)"

text \<open>Every page reports a further page.\<close>

definition endless_source :: "nat page_fetcher" where
  "endless_source n req = (Inr (sample_page n True), Suc n)"

text \<open>Every page is empty and reports a further page.\<close>

definition empty_page :: jsval where
  "empty_page =
     JObj [(''orders'', JArr []),
           (''pageInfo'', JObj [(''hasNextPage'', JBool True), (''endCursor'', JStr ''next'')])]"

definition idle_source :: "nat page_fetcher" where
  "idle_source n req = (Inr empty_page, Suc n)"

text \<open>The second page reports that there is no further page.\<close>

definition two_page_source :: "nat page_fetcher" where
  "two_page_source n req = (Inr (sample_page n (n = 0)), Suc n)"

text \<open>The second fetch is rejected.\<close>

definition failing_source :: "nat page_fetcher" where
  "failing_source n req =
     (if n = 0 then Inr (sample_page n True) else Inl (ToolError ''timeout''), Suc n)"

text \<open>
  Modelled from the spec: the store of \<open>new PluginCache(...)\<close> at process start, enabled
  and empty. A client constructed on it has \<open>cacheDisabled = false\<close>.
\<close>

definition empty_store :: cache_store where
  "empty_store =
     \<lparr>entries = [], enabled = True,
      stats = \<lparr>hits = 0, misses = 0, sets = 0, invalidations = 0\<rparr>\<rparr>"

definition new_client :: "'w \<Rightarrow> 'w client" where
  "new_client w = \<lparr>cache = empty_store, cacheDisabled = False, remote = w\<rparr>"

text \<open>A tool that answers every call with its own argument object.\<close>

definition echo_tool :: "nat tool" where
  "echo_tool n name args = (Inr (JObj args), Suc n)"

text \<open>A new client on that tool, observed through the log of its calls.\<close>

definition fresh_client :: "((string \<times> (string \<times> jsval) list) list \<times> nat) client" where
  "fresh_client = new_client ([], 0)"

text \<open>A store holding one entry in each of four namespaces, all expiring at time 1000.\<close>

definition sample_entry :: cache_entry where
  "sample_entry = \<lparr>val = JStr ''cached'', expiresAt = 1000, storedAt = 700\<rparr>"

definition sample_store :: cache_store where
  "sample_store =
     empty_store\<lparr>entries :=
       [(''order:id=42'', sample_entry), (''orders:status=open'', sample_entry),
        (''product:id=1'', sample_entry), (''customer_orders:id=7'', sample_entry)]\<rparr>"

text \<open>A tool that rejects every call, and a client whose cache is the sample store.\<close>

definition refusing_tool :: "nat tool" where
  "refusing_tool n name args = (Inl (ToolError ''refused''), Suc n)"

definition stocked_client :: "((string \<times> (string \<times> jsval) list) list \<times> nat) client" where
  "stocked_client = fresh_client\<lparr>cache := sample_store\<rparr>"

text \<open>
  A query for the open orders, a fetch function that counts its runs, and the store that
  one fetch of \<open>orders:status=open\<close> at time 0 with a TTL of 300 leaves behind.
\<close>

definition open_orders :: orders_options where
  "open_orders =
     \<lparr>status = JStr ''open'', limit = JUndefined, sortKey = JUndefined, reverse = JUndefined,
      after = JUndefined, query = JUndefined\<rparr>"

definition counting_fetch :: "nat \<Rightarrow> (error + jsval) \<times> nat" where
  "counting_fetch n = (Inr (JStr ''fetched''), Suc n)"

definition warm_store :: cache_store where
  "warm_store =
     \<lparr>entries =
        [(''orders:status=open'', \<lparr>val = JStr ''fetched'', expiresAt = 300, storedAt = 0\<rparr>)],
      enabled = True,
      stats = \<lparr>hits = 0, misses = 1, sets = 1, invalidations = 0\<rparr>\<rparr>"

declare show_nat.simps [simp del]

section \<open>Unfolding the loop\<close>

text \<open>
  \<open>handle_response\<close> in terms of the three readings of a response, and the four ways
  one pass through the loop head can go: the condition fails, the fetch is rejected, the
  response cannot be handled, or an iteration completes.
\<close>

lemma handle_response_eq:
  "handle_response result st =
     (case page_items result of
        Inl e \<Rightarrow> Inl e
      | Inr xs \<Rightarrow> Inr (st\<lparr>allOrders := allOrders st @ xs,
                         hasNextPage := page_hasNextPage result,
                         cursor := page_cursor result (cursor st)\<rparr>))"
  by (cases result)
     (auto simp: handle_response_def page_items_def page_hasNextPage_def page_cursor_def
        opt_field_def split: sum.splits)

lemma loop_stop:
  "\<not> (truthy (hasNextPage st) \<and> count_below (pageCount st) b) \<Longrightarrow>
     getAllOrders_loop g opts b st w = Some (Inr st, w)"
  by (subst getAllOrders_loop.simps) auto

lemma loop_reject:
  "truthy (hasNextPage st) \<Longrightarrow> count_below (pageCount st) b \<Longrightarrow>
   g w (page_request opts (cursor st)) = (Inl e, w1) \<Longrightarrow>
     getAllOrders_loop g opts b st w = Some (Inl e, w1)"
  by (subst getAllOrders_loop.simps) simp

lemma loop_malformed:
  "truthy (hasNextPage st) \<Longrightarrow> count_below (pageCount st) b \<Longrightarrow>
   g w (page_request opts (cursor st)) = (Inr result, w1) \<Longrightarrow> page_items result = Inl e \<Longrightarrow>
     getAllOrders_loop g opts b st w = Some (Inl e, w1)"
  by (subst getAllOrders_loop.simps) (simp add: handle_response_eq)

lemma loop_step:
  "truthy (hasNextPage st) \<Longrightarrow> count_below (pageCount st) b \<Longrightarrow>
   g w (page_request opts (cursor st)) = (Inr result, w1) \<Longrightarrow> page_items result = Inr xs \<Longrightarrow>
     getAllOrders_loop g opts b st w = getAllOrders_loop g opts b (next_state st result xs) w1"
  by (subst getAllOrders_loop.simps) (simp add: handle_response_eq next_state_def)

lemma recording_apply:
  "f w req = (r, w1) \<Longrightarrow> recording f (lg, w) req = (r, (lg @ [(req, r)], w1))"
  by (simp add: recording_def)

section \<open>Runs observed through the fetch log\<close>

text \<open>
  Induction over a run of the loop on a recording fetcher that returns. It follows the
  unfolding of the loop itself, so it needs no bound on the number of iterations.
\<close>

lemma recorded_run_induct [consumes 1, case_names stop reject malformed step]:
  assumes run: "getAllOrders_loop (recording f) opts b st (lg, w) = Some (r, (lg', w'))"
    and stop: "\<And>st lg w. \<not> (truthy (hasNextPage st) \<and> count_below (pageCount st) b) \<Longrightarrow>
                 P st lg w (Inr st) lg w"
    and reject: "\<And>st lg w e w1. truthy (hasNextPage st) \<Longrightarrow>
                 count_below (pageCount st) b \<Longrightarrow>
                 f w (page_request opts (cursor st)) = (Inl e, w1) \<Longrightarrow>
                 P st lg w (Inl e) (lg @ [(page_request opts (cursor st), Inl e)]) w1"
    and malformed: "\<And>st lg w result e w1. truthy (hasNextPage st) \<Longrightarrow>
                 count_below (pageCount st) b \<Longrightarrow>
                 f w (page_request opts (cursor st)) = (Inr result, w1) \<Longrightarrow>
                 page_items result = Inl e \<Longrightarrow>
                 P st lg w (Inl e) (lg @ [(page_request opts (cursor st), Inr result)]) w1"
    and step: "\<And>st lg w result xs w1 r lg' w'.
                 truthy (hasNextPage st) \<Longrightarrow> count_below (pageCount st) b \<Longrightarrow>
                 f w (page_request opts (cursor st)) = (Inr result, w1) \<Longrightarrow>
                 page_items result = Inr xs \<Longrightarrow>
                 P (next_state st result xs)
                   (lg @ [(page_request opts (cursor st), Inr result)]) w1 r lg' w' \<Longrightarrow>
                 P st lg w r lg' w'"
  shows "P st lg w r lg' w'"
proof -
  let ?Q = "\<lambda>g opts' b' st ww y.
              g = recording f \<and> opts' = opts \<and> b' = b \<longrightarrow>
                P st (fst ww) (snd ww) (fst y) (fst (snd y)) (snd (snd y))"
  have "?Q (recording f) opts b st (lg, w) (r, (lg', w'))"
  proof (rule getAllOrders_loop.raw_induct[where P = ?Q, OF _ run])
    fix loop :: "((orders_options \<times> (error + jsval)) list \<times> 'a) page_fetcher \<Rightarrow>
                 all_orders_options \<Rightarrow> jsnum \<Rightarrow> loop_state \<Rightarrow>
                 (orders_options \<times> (error + jsval)) list \<times> 'a \<Rightarrow>
                 ((error + loop_state) \<times> (orders_options \<times> (error + jsval)) list \<times> 'a) option"
    fix g opts' b' st ww y
    assume IH: "\<And>g opts' b' st ww y. loop g opts' b' st ww = Some y \<Longrightarrow> ?Q g opts' b' st ww y"
    assume body:
      "(if truthy (hasNextPage st) \<and> count_below (pageCount st) b' then
          (case g ww (page_request opts' (cursor st)) of
             (Inl e, w') \<Rightarrow> Some (Inl e, w')
           | (Inr result, w') \<Rightarrow>
               (case handle_response result st of
                  Inl e \<Rightarrow> Some (Inl e, w')
                | Inr st' \<Rightarrow> loop g opts' b' (st'\<lparr>pageCount := js_incr (pageCount st')\<rparr>) w'))
        else Some (Inr st, ww)) = Some y"
    show "?Q g opts' b' st ww y"
    proof (intro impI, elim conjE)
      assume eqs: "g = recording f" "opts' = opts" "b' = b"
      obtain lg w where ww: "ww = (lg, w)" by (cases ww)
      let ?req = "page_request opts (cursor st)"
      show "P st (fst ww) (snd ww) (fst y) (fst (snd y)) (snd (snd y))"
      proof (cases "truthy (hasNextPage st) \<and> count_below (pageCount st) b")
        case False
        with body eqs have "y = (Inr st, ww)" by auto
        with stop[OF False, of lg w] ww show ?thesis by simp
      next
        case True
        obtain r1 w1 where fr: "f w ?req = (r1, w1)" by (cases "f w ?req")
        have rf: "recording f (lg, w) ?req = (r1, (lg @ [(?req, r1)], w1))"
          using fr by (rule recording_apply)
        show ?thesis
        proof (cases r1)
          case (Inl e)
          with body eqs True ww rf have "y = (Inl e, (lg @ [(?req, Inl e)], w1))" by simp
          with reject[of st w e w1 lg] True fr Inl ww show ?thesis by simp
        next
          case (Inr result)
          show ?thesis
          proof (cases "page_items result")
            case (Inl e)
            with body eqs True ww rf Inr
            have "y = (Inl e, (lg @ [(?req, Inr result)], w1))"
              by (simp add: handle_response_eq)
            with malformed[of st w result w1 e lg] True fr Inr Inl ww show ?thesis by simp
          next
            case xs: (Inr xs)
            from body eqs True ww rf Inr xs
            have "loop (recording f) opts b (next_state st result xs)
                    (lg @ [(?req, Inr result)], w1) = Some y"
              by (simp add: handle_response_eq next_state_def)
            from IH[OF this]
            have "P (next_state st result xs) (lg @ [(?req, Inr result)]) w1
                    (fst y) (fst (snd y)) (snd (snd y))"
              by simp
            with step[of st w result w1 xs lg "fst y" "fst (snd y)" "snd (snd y)"]
              True fr Inr xs ww
            show ?thesis by simp
          qed
        qed
      qed
    qed
  qed
  then show ?thesis by simp
qed


text \<open>
  The counter after \<open>k\<close> increments from a value it can take: it counts up to \<open>2^53\<close>
  and stays there. A count below a bound stays below it when it gets smaller.
\<close>

lemma js_incr_funpow:
  "0 \<le> n \<Longrightarrow> n \<le> 2 ^ 53 \<Longrightarrow> (js_incr ^^ k) n = min (2 ^ 53) (n + int k)"
  by (induction k) (auto simp: js_incr_def)

lemma js_incr_le: "n \<le> 2 ^ 53 \<Longrightarrow> js_incr n \<le> 2 ^ 53"
  by (simp add: js_incr_def)

lemma count_below_mono: "count_below n b \<Longrightarrow> k \<le> n \<Longrightarrow> count_below k b"
proof (cases b)
  case (Num q)
  assume "count_below n b" "k \<le> n"
  with Num have "of_int n < q" "(of_int k :: rat) \<le> of_int n" by simp_all
  with Num show ?thesis by simp
qed simp_all

text \<open>
  Each fetch adds one entry to the log, and on normal exit \<open>pageCount\<close> has been
  incremented once for each entry, whatever the bound.
\<close>

lemma run_count:
  assumes "getAllOrders_loop (recording f) opts b st (lg, w) = Some (r, (lg', w'))"
  shows "\<exists>ext. lg' = lg @ ext \<and>
           (\<forall>st'. r = Inr st' \<longrightarrow> pageCount st' = (js_incr ^^ length ext) (pageCount st))"
  using assms
proof (induction rule: recorded_run_induct)
  case (step st lg w result xs w1 r lg' w')
  then obtain ext where "lg' = (lg @ [(page_request opts (cursor st), Inr result)]) @ ext"
     "\<forall>st'. r = Inr st' \<longrightarrow>
        pageCount st' = (js_incr ^^ length ext) (pageCount (next_state st result xs))"
    by blast
  then show ?case
    by (intro exI[of _ "(page_request opts (cursor st), Inr result) # ext"])
       (auto simp: next_state_def funpow_swap1)
qed auto

text \<open>
  Under an integral bound \<open>m\<close> that the counter can reach, at most \<open>m - pageCount\<close>
  entries are added.
\<close>

lemma run_log_bound:
  assumes run:
      "getAllOrders_loop (recording f) opts (Num (of_int m)) st (lg, w) = Some (r, (lg', w'))"
    and cap: "m \<le> 2 ^ 53"
  shows "\<exists>ext. lg' = lg @ ext \<and> int (length ext) \<le> max 0 (m - pageCount st)"
  using run
proof (induction rule: recorded_run_induct)
  case (step st lg w result xs w1 r lg' w')
  then obtain ext where "lg' = (lg @ [(page_request opts (cursor st), Inr result)]) @ ext"
     "int (length ext) \<le> max 0 (m - pageCount (next_state st result xs))"
    by blast
  with step(2) cap show ?case
    by (intro exI[of _ "(page_request opts (cursor st), Inr result) # ext"])
       (auto simp: next_state_def js_incr_def)
qed auto

text \<open>
  Under an integral bound that the counter can reach the loop returns, for every fetcher
  and from every state: the distance \<open>m - pageCount\<close> shrinks with each completed
  iteration.
\<close>

lemma loop_returns:
  assumes cap: "m \<le> 2 ^ 53"
  shows "\<exists>y. getAllOrders_loop g opts (Num (of_int m)) st w = Some y"
proof (induction "nat (m - pageCount st)" arbitrary: st w)
  case 0
  then have "\<not> (truthy (hasNextPage st) \<and> count_below (pageCount st) (Num (of_int m)))"
    by simp
  then show ?case by (simp add: loop_stop)
next
  case (Suc k)
  let ?b = "Num (of_int m)"
  let ?req = "page_request opts (cursor st)"
  show ?case
  proof (cases "truthy (hasNextPage st) \<and> count_below (pageCount st) ?b")
    case False
    then show ?thesis by (simp add: loop_stop)
  next
    case True
    obtain r1 w1 where g: "g w ?req = (r1, w1)" by (cases "g w ?req")
    show ?thesis
    proof (cases r1)
      case (Inl e)
      with True g have "getAllOrders_loop g opts ?b st w = Some (Inl e, w1)"
        by (intro loop_reject) auto
      then show ?thesis by simp
    next
      case (Inr result)
      show ?thesis
      proof (cases "page_items result")
        case (Inl e)
        with True g Inr have "getAllOrders_loop g opts ?b st w = Some (Inl e, w1)"
          by (intro loop_malformed) auto
        then show ?thesis by simp
      next
        case xs: (Inr xs)
        from True g Inr xs
        have "getAllOrders_loop g opts ?b st w
                = getAllOrders_loop g opts ?b (next_state st result xs) w1"
          by (intro loop_step) auto
        moreover have "k = nat (m - pageCount (next_state st result xs))"
          using Suc(2) True cap by (simp add: next_state_def js_incr_def)
        ultimately show ?thesis using Suc(1) by simp
      qed
    qed
  qed
qed

lemma run_outcomes:
  assumes "getAllOrders_loop (recording f) opts b st (lg, w) = Some (r, (lg', w'))"
  shows "\<exists>ext. lg' = lg @ ext \<and>
           (\<forall>x\<in>set ext. \<exists>w. snd x = fst (f w (fst x))) \<and>
           (\<forall>x\<in>set (butlast ext). \<exists>xs. outcome_items (snd x) = Inr xs) \<and>
           (case r of
              Inr st' \<Rightarrow> \<forall>x\<in>set ext. \<exists>xs. outcome_items (snd x) = Inr xs
            | Inl e \<Rightarrow> ext \<noteq> [] \<and> outcome_items (snd (last ext)) = Inl e)"
  using assms
proof (induction rule: recorded_run_induct)
  case (stop st lg w)
  show ?case by simp
next
  case (reject st lg w e w1)
  then show ?case
    by (intro exI[of _ "[(page_request opts (cursor st), Inl e)]"])
       (auto simp: outcome_items_def intro: exI[of _ w])
next
  case (malformed st lg w result e w1)
  then show ?case
    by (intro exI[of _ "[(page_request opts (cursor st), Inr result)]"])
       (auto simp: outcome_items_def intro: exI[of _ w])
next
  case (step st lg w result xs w1 r lg' w')
  let ?x = "(page_request opts (cursor st), Inr result :: error + jsval)"
  from step(5) obtain ext where ext: "lg' = (lg @ [?x]) @ ext"
    "\<forall>x\<in>set ext. \<exists>w. snd x = fst (f w (fst x))"
    "\<forall>x\<in>set (butlast ext). \<exists>xs. outcome_items (snd x) = Inr xs"
    "case r of Inr st' \<Rightarrow> \<forall>x\<in>set ext. \<exists>xs. outcome_items (snd x) = Inr xs
            | Inl e \<Rightarrow> ext \<noteq> [] \<and> outcome_items (snd (last ext)) = Inl e"
    by blast
  have x_ok: "outcome_items (snd ?x) = Inr xs" using step(4) by (simp add: outcome_items_def)
  have x_f: "snd ?x = fst (f w (fst ?x))" using step(3) by simp
  have 1: "lg' = lg @ (?x # ext)" using ext(1) by simp
  have 2: "\<forall>x\<in>set (?x # ext). \<exists>w. snd x = fst (f w (fst x))"
    using ext(2) x_f by (metis set_ConsD)
  have 3: "\<forall>x\<in>set (butlast (?x # ext)). \<exists>xs. outcome_items (snd x) = Inr xs"
    using ext(3) x_ok by (cases ext) auto
  have 4: "case r of Inr st' \<Rightarrow> \<forall>x\<in>set (?x # ext). \<exists>xs. outcome_items (snd x) = Inr xs
            | Inl e \<Rightarrow> ?x # ext \<noteq> [] \<and> outcome_items (snd (last (?x # ext))) = Inl e"
    using ext(4) x_ok by (cases r) auto
  from 1 2 3 4 show ?case by blast
qed

lemma run_result:
  assumes "getAllOrders_loop (recording f) opts b st (lg, w) = Some (r, (lg', w'))"
  shows "\<exists>ext. lg' = lg @ ext \<and>
           (\<forall>st'. r = Inr st' \<longrightarrow>
              allOrders st' = allOrders st @ concat (map log_items ext) \<and>
              hasNextPage st' =
                (if ext = [] then hasNextPage st else outcome_hasNextPage (snd (last ext))) \<and>
              (ext = [] \<longrightarrow> st' = st) \<and>
              \<not> (truthy (hasNextPage st') \<and> count_below (pageCount st') b))"
  using assms
proof (induction rule: recorded_run_induct)
  case (stop st lg w)
  then show ?case by simp
next
  case (reject st lg w e w1)
  then show ?case by simp
next
  case (malformed st lg w result e w1)
  then show ?case by simp
next
  case (step st lg w result xs w1 r lg' w')
  let ?x = "(page_request opts (cursor st), Inr result :: error + jsval)"
  let ?st1 = "next_state st result xs"
  from step(5) obtain ext where ext: "lg' = (lg @ [?x]) @ ext"
    and res: "\<forall>st'. r = Inr st' \<longrightarrow>
              allOrders st' = allOrders ?st1 @ concat (map log_items ext) \<and>
              hasNextPage st' =
                (if ext = [] then hasNextPage ?st1 else outcome_hasNextPage (snd (last ext))) \<and>
              (ext = [] \<longrightarrow> st' = ?st1) \<and>
              \<not> (truthy (hasNextPage st') \<and> count_below (pageCount st') b)"
    by blast
  have x_items: "log_items ?x = xs"
    using step(4) by (simp add: log_items_def outcome_items_def)
  have x_next: "outcome_hasNextPage (snd ?x) = hasNextPage ?st1"
    by (simp add: outcome_hasNextPage_def next_state_def)
  have st1_orders: "allOrders ?st1 = allOrders st @ xs"
    by (simp add: next_state_def)
  have "\<forall>st'. r = Inr st' \<longrightarrow>
              allOrders st' = allOrders st @ concat (map log_items (?x # ext)) \<and>
              hasNextPage st' =
                (if ?x # ext = [] then hasNextPage st
                 else outcome_hasNextPage (snd (last (?x # ext)))) \<and>
              (?x # ext = [] \<longrightarrow> st' = st) \<and>
              \<not> (truthy (hasNextPage st') \<and> count_below (pageCount st') b)"
  proof (intro allI impI conjI)
    fix st' assume r: "r = Inr st'"
    from res r have "allOrders st' = allOrders ?st1 @ concat (map log_items ext)" by blast
    then show "allOrders st' = allOrders st @ concat (map log_items (?x # ext))"
      by (simp only: st1_orders x_items list.map concat.simps append_assoc)
    from res r have h: "hasNextPage st' =
                (if ext = [] then hasNextPage ?st1 else outcome_hasNextPage (snd (last ext)))"
      by blast
    show "hasNextPage st' =
                (if ?x # ext = [] then hasNextPage st
                 else outcome_hasNextPage (snd (last (?x # ext))))"
    proof (cases "ext = []")
      case True
      with h x_next show ?thesis by simp
    next
      case False
      with h show ?thesis by simp
    qed
    from res r show "\<not> (truthy (hasNextPage st') \<and> count_below (pageCount st') b)" by blast
  qed simp
  moreover have "lg' = lg @ (?x # ext)" using ext by simp
  ultimately show ?case by blast
qed

lemma run_unrecorded:
  assumes "getAllOrders_loop (recording f) opts b st (lg, w) = Some (r, (lg', w'))"
  shows "getAllOrders_loop f opts b st w = Some (r, w')"
  using assms
proof (induction rule: recorded_run_induct)
  case (stop st lg w)
  then show ?case by (rule loop_stop)
next
  case (reject st lg w e w1)
  then show ?case by (rule loop_reject)
next
  case (malformed st lg w result e w1)
  then show ?case by (rule loop_malformed)
next
  case (step st lg w result xs w1 r lg' w')
  then show ?case by (simp add: loop_step)
qed


section \<open>\<open>getAllOrders\<close> and its loop\<close>

lemma getAllOrders_of_loop:
  "getAllOrders_loop g options (effective_maxPages options) initial_state w = Some (r, w') \<Longrightarrow>
   getAllOrders g options w =
     Some (case r of
        Inl e \<Rightarrow> Inl e
      | Inr st \<Rightarrow> Inr \<lparr>orders = allOrders st, totalFetched = length (allOrders st),
                       hasMore = hasNextPage st\<rparr>, w')"
  by (simp add: getAllOrders_def split: sum.splits)

lemma getAllOrders_of_no_return:
  "getAllOrders_loop g options (effective_maxPages options) initial_state w = None \<Longrightarrow>
   getAllOrders g options w = None"
  by (simp add: getAllOrders_def)

lemma loop_of_getAllOrders:
  assumes "getAllOrders g options w = Some (res, w')"
  obtains r where
    "getAllOrders_loop g options (effective_maxPages options) initial_state w = Some (r, w')"
    "res = (case r of
        Inl e \<Rightarrow> Inl e
      | Inr st \<Rightarrow> Inr \<lparr>orders = allOrders st, totalFetched = length (allOrders st),
                       hasMore = hasNextPage st\<rparr>)"
proof (cases "getAllOrders_loop g options (effective_maxPages options) initial_state w")
  case None
  with assms show ?thesis by (simp add: getAllOrders_def)
next
  case (Some y)
  obtain r w1 where y: "y = (r, w1)" by (cases y)
  from Some y have run:
    "getAllOrders_loop g options (effective_maxPages options) initial_state w = Some (r, w1)"
    by simp
  from getAllOrders_of_loop[OF run] assms that run show thesis by simp
qed

text \<open>What a returning run from the loop's entry state tells about its log.\<close>

lemma run_from_start:
  assumes run: "getAllOrders (recording fetchPage) options ([], w) = Some (res, (lg, w'))"
  obtains r where
    "getAllOrders_loop (recording fetchPage) options (effective_maxPages options)
       initial_state ([], w) = Some (r, (lg, w'))"
    "res = (case r of
        Inl e \<Rightarrow> Inl e
      | Inr st \<Rightarrow> Inr \<lparr>orders = allOrders st, totalFetched = length (allOrders st),
                       hasMore = hasNextPage st\<rparr>)"
    "\<And>st. r = Inr st \<Longrightarrow> pageCount st = min (2 ^ 53) (int (length lg))"
    "\<And>st. r = Inr st \<Longrightarrow> allOrders st = concat (map log_items lg)"
    "\<And>st. r = Inr st \<Longrightarrow> lg \<noteq> [] \<Longrightarrow> hasNextPage st = outcome_hasNextPage (snd (last lg))"
    "\<And>st. r = Inr st \<Longrightarrow> lg = [] \<Longrightarrow> st = initial_state"
    "\<And>st. r = Inr st \<Longrightarrow>
       \<not> (truthy (hasNextPage st) \<and> count_below (pageCount st) (effective_maxPages options))"
    "\<And>x. x \<in> set lg \<Longrightarrow> \<exists>w. snd x = fst (fetchPage w (fst x))"
    "\<And>x. x \<in> set (butlast lg) \<Longrightarrow> \<exists>xs. outcome_items (snd x) = Inr xs"
    "\<And>st x. r = Inr st \<Longrightarrow> x \<in> set lg \<Longrightarrow> \<exists>xs. outcome_items (snd x) = Inr xs"
    "\<And>e. r = Inl e \<Longrightarrow> lg \<noteq> [] \<and> outcome_items (snd (last lg)) = Inl e"
proof -
  from run obtain r where
    loop: "getAllOrders_loop (recording fetchPage) options (effective_maxPages options)
             initial_state ([], w) = Some (r, (lg, w'))"
    and res: "res = (case r of
        Inl e \<Rightarrow> Inl e
      | Inr st \<Rightarrow> Inr \<lparr>orders = allOrders st, totalFetched = length (allOrders st),
                       hasMore = hasNextPage st\<rparr>)"
    by (rule loop_of_getAllOrders)
  from run_count[OF loop]
  have b: "\<And>st. r = Inr st \<Longrightarrow> pageCount st = min (2 ^ 53) (int (length lg))"
    by (auto simp: initial_state_def js_incr_funpow)
  from run_result[OF loop]
  have c: "\<And>st. r = Inr st \<Longrightarrow> allOrders st = concat (map log_items lg)"
    "\<And>st. r = Inr st \<Longrightarrow> lg \<noteq> [] \<Longrightarrow> hasNextPage st = outcome_hasNextPage (snd (last lg))"
    "\<And>st. r = Inr st \<Longrightarrow> lg = [] \<Longrightarrow> st = initial_state"
    "\<And>st. r = Inr st \<Longrightarrow>
       \<not> (truthy (hasNextPage st) \<and> count_below (pageCount st) (effective_maxPages options))"
    by (simp_all add: initial_state_def)
  from run_outcomes[OF loop]
  have d: "\<And>x. x \<in> set lg \<Longrightarrow> \<exists>w. snd x = fst (fetchPage w (fst x))"
    "\<And>x. x \<in> set (butlast lg) \<Longrightarrow> \<exists>xs. outcome_items (snd x) = Inr xs"
    "\<And>st x. r = Inr st \<Longrightarrow> x \<in> set lg \<Longrightarrow> \<exists>xs. outcome_items (snd x) = Inr xs"
    "\<And>e. r = Inl e \<Longrightarrow> lg \<noteq> [] \<and> outcome_items (snd (last lg)) = Inl e"
    by simp_all
  from loop res b c d show thesis by (rule that)
qed

text \<open>
  The log only observes: a run on the recording fetcher returns what the run on the
  fetcher itself returns, and leaves the outside state the same.
\<close>

lemma getAllOrders_unrecorded:
  assumes "getAllOrders (recording fetchPage) options (lg, w) = Some (res, (lg', w'))"
  shows "getAllOrders fetchPage options w = Some (res, w')"
proof -
  from assms obtain r :: "error + loop_state" where
    loop: "getAllOrders_loop (recording fetchPage) options (effective_maxPages options)
             initial_state (lg, w) = Some (r, (lg', w'))"
    and res: "res = (case r of
        Inl e \<Rightarrow> Inl e
      | Inr st \<Rightarrow> Inr \<lparr>orders = allOrders st, totalFetched = length (allOrders st),
                       hasMore = hasNextPage st\<rparr>)"
    by (rule loop_of_getAllOrders)
  from run_unrecorded[OF loop]
  have "getAllOrders_loop fetchPage options (effective_maxPages options) initial_state w
          = Some (r, w')" .
  from getAllOrders_of_loop[OF this] res show ?thesis by simp
qed


section \<open>Readings of the sample pages\<close>

lemma page_items_sample: "page_items (sample_page n nxt) = Inr [JNum (int n)]"
  by (simp add: page_items_def sample_page_def)

lemma page_hasNextPage_sample: "page_hasNextPage (sample_page n nxt) = JBool nxt"
  by (simp add: page_hasNextPage_def sample_page_def opt_field_def nullish_or_def)

lemma page_cursor_sample: "page_cursor (sample_page n nxt) c = JStr ''next''"
  by (simp add: page_cursor_def sample_page_def opt_field_def)

lemma page_items_flag: "page_items (flag_page flag n) = Inr [JNum (int n)]"
  by (simp add: page_items_def flag_page_def)

lemma page_hasNextPage_flag:
  "page_hasNextPage (flag_page flag n) = nullish_or flag (JBool False)"
  by (simp add: page_hasNextPage_def flag_page_def opt_field_def)

lemma page_cursor_flag: "page_cursor (flag_page flag n) c = JStr ''next''"
  by (simp add: page_cursor_def flag_page_def opt_field_def)

lemma endless_run2:
  "getAllOrders_loop (recording endless_source) (default_options\<lparr>ao_maxPages := Some (Num 2)\<rparr>)
     (effective_maxPages (default_options\<lparr>ao_maxPages := Some (Num 2)\<rparr>)) initial_state ([], 0)
   = Some (Inr \<lparr>allOrders = [JNum 0, JNum 1], cursor = JStr ''next'', hasNextPage = JBool True,
           pageCount = 2\<rparr>,
      ([(page_request (default_options\<lparr>ao_maxPages := Some (Num 2)\<rparr>) JUndefined,
         Inr (sample_page 0 True)),
        (page_request (default_options\<lparr>ao_maxPages := Some (Num 2)\<rparr>) (JStr ''next''),
         Inr (sample_page 1 True))],
       2))"
  by (subst getAllOrders_loop.simps,
      simp add: handle_response_eq recording_def endless_source_def effective_maxPages_def
        page_items_sample page_hasNextPage_sample page_cursor_sample initial_state_def
        js_incr_def)+

section \<open>Bounds under which the loop does not stop\<close>

text \<open>
  With a bound above \<open>2^53\<close>, which the counter never passes, on a source whose every
  answer can be handled and reports a further page, no run of the loop that starts with
  a truthy \<open>hasNextPage\<close> returns. \<open>Infinity\<close> is such a bound.
\<close>

lemma unreached_bound_never_returns:
  assumes always: "\<And>w req. \<exists>page w' xs. f w req = (Inr page, w') \<and> page_items page = Inr xs \<and>
                     truthy (page_hasNextPage page)"
    and run: "getAllOrders_loop f opts b st w = Some y"
    and go: "truthy (hasNextPage st)"
    and far: "count_below (2 ^ 53) b"
    and low: "pageCount st \<le> 2 ^ 53"
  shows False
proof -
  let ?Q = "\<lambda>g (opts' :: all_orders_options) b' st (w :: 'a) (y :: (error + loop_state) \<times> 'a).
              g = f \<and> b' = b \<and> truthy (hasNextPage st) \<and> pageCount st \<le> 2 ^ 53 \<longrightarrow> False"
  have "?Q f opts b st w y"
  proof (rule getAllOrders_loop.raw_induct[where P = ?Q, OF _ run])
    fix loop :: "'a page_fetcher \<Rightarrow> all_orders_options \<Rightarrow> jsnum \<Rightarrow> loop_state \<Rightarrow> 'a \<Rightarrow>
                 ((error + loop_state) \<times> 'a) option"
    fix g opts' b' st w y
    assume IH: "\<And>g opts' b' st w y. loop g opts' b' st w = Some y \<Longrightarrow> ?Q g opts' b' st w y"
    assume body:
      "(if truthy (hasNextPage st) \<and> count_below (pageCount st) b' then
          (case g w (page_request opts' (cursor st)) of
             (Inl e, w') \<Rightarrow> Some (Inl e, w')
           | (Inr result, w') \<Rightarrow>
               (case handle_response result st of
                  Inl e \<Rightarrow> Some (Inl e, w')
                | Inr st' \<Rightarrow> loop g opts' b' (st'\<lparr>pageCount := js_incr (pageCount st')\<rparr>) w'))
        else Some (Inr st, w)) = Some y"
    show "?Q g opts' b' st w y"
    proof (intro impI, elim conjE)
      assume eqs: "g = f" "b' = b" and t: "truthy (hasNextPage st)"
        and l: "pageCount st \<le> 2 ^ 53"
      from far l have below: "count_below (pageCount st) b" by (rule count_below_mono)
      from always obtain page w1 xs where
        p: "f w (page_request opts' (cursor st)) = (Inr page, w1)" "page_items page = Inr xs"
          "truthy (page_hasNextPage page)"
        by blast
      from body eqs t below p
      have "loop f opts' b (next_state st page xs) w1 = Some y"
        by (simp add: handle_response_eq next_state_def)
      from IH[OF this] p(3) js_incr_le[OF l] show False by (simp add: next_state_def)
    qed
  qed
  with go low show False by simp
qed

lemma idle_source_always:
  "\<exists>page w' xs. idle_source w req = (Inr page, w') \<and> page_items page = Inr xs \<and>
     truthy (page_hasNextPage page)"
  by (simp add: idle_source_def empty_page_def page_items_def page_hasNextPage_def
        opt_field_def nullish_or_def)

lemma idle_never_returns:
  assumes "count_below (2 ^ 53) (effective_maxPages options)"
  shows "getAllOrders idle_source options w = None"
proof -
  have "getAllOrders_loop idle_source options (effective_maxPages options) initial_state w = None"
  proof (cases "getAllOrders_loop idle_source options (effective_maxPages options)
                  initial_state w")
    case (Some y)
    from unreached_bound_never_returns[of idle_source, OF idle_source_always Some _ assms]
    show ?thesis by (simp add: initial_state_def)
  qed simp
  then show ?thesis by (rule getAllOrders_of_no_return)
qed

lemma endless_run_fraction:
  "getAllOrders_loop (recording endless_source)
     (default_options\<lparr>ao_maxPages := Some (Num (5 / 2))\<rparr>)
     (effective_maxPages (default_options\<lparr>ao_maxPages := Some (Num (5 / 2))\<rparr>))
     initial_state ([], 0)
   = Some (Inr \<lparr>allOrders = [JNum 0, JNum 1, JNum 2], cursor = JStr ''next'',
                 hasNextPage = JBool True, pageCount = 3\<rparr>,
      ([(page_request (default_options\<lparr>ao_maxPages := Some (Num (5 / 2))\<rparr>) JUndefined,
         Inr (sample_page 0 True)),
        (page_request (default_options\<lparr>ao_maxPages := Some (Num (5 / 2))\<rparr>) (JStr ''next''),
         Inr (sample_page 1 True)),
        (page_request (default_options\<lparr>ao_maxPages := Some (Num (5 / 2))\<rparr>) (JStr ''next''),
         Inr (sample_page 2 True))],
       3))"
  by (subst getAllOrders_loop.simps,
      simp add: handle_response_eq recording_def endless_source_def effective_maxPages_def
        page_items_sample page_hasNextPage_sample page_cursor_sample initial_state_def
        numeral_2_eq_2 js_incr_def)+


section \<open>The page bound\<close>

text \<open>
  C1, as stated, fails for positive bounds that are not integers or that the counter
  cannot reach. With \<open>maxPages = 2.5\<close> on the source whose every page reports a further
  page, the loop fetches three pages and ends with \<open>pageCount = 3\<close>, above the bound.
  With \<open>maxPages = Infinity\<close>, and with the integer \<open>maxPages = 2^53 + 2\<close>, on the
  source whose every page is empty and reports a further page, \<open>getAllOrders\<close> never
  returns.
\<close>

theorem getAllOrders_bounded_counterexample:
  "getAllOrders_loop (recording endless_source)
     (default_options\<lparr>ao_maxPages := Some (Num (5 / 2))\<rparr>)
     (effective_maxPages (default_options\<lparr>ao_maxPages := Some (Num (5 / 2))\<rparr>))
     initial_state ([], 0)
   = Some (Inr \<lparr>allOrders = [JNum 0, JNum 1, JNum 2], cursor = JStr ''next'',
                 hasNextPage = JBool True, pageCount = 3\<rparr>,
      ([(page_request (default_options\<lparr>ao_maxPages := Some (Num (5 / 2))\<rparr>) JUndefined,
         Inr (sample_page 0 True)),
        (page_request (default_options\<lparr>ao_maxPages := Some (Num (5 / 2))\<rparr>) (JStr ''next''),
         Inr (sample_page 1 True)),
        (page_request (default_options\<lparr>ao_maxPages := Some (Num (5 / 2))\<rparr>) (JStr ''next''),
         Inr (sample_page 2 True))],
       3)) \<and>
   (5 / 2 :: rat) < 3 \<and>
   getAllOrders idle_source (default_options\<lparr>ao_maxPages := Some PosInf\<rparr>) 0 = None \<and>
   getAllOrders idle_source (default_options\<lparr>ao_maxPages := Some (Num (2 ^ 53 + 2))\<rparr>) 0
     = None"
  using endless_run_fraction
    idle_never_returns[of "default_options\<lparr>ao_maxPages := Some PosInf\<rparr>" 0]
    idle_never_returns[of "default_options\<lparr>ao_maxPages := Some (Num (2 ^ 53 + 2))\<rparr>" 0]
  by (simp add: effective_maxPages_def)

text \<open>
  C1, amended. For every page fetcher and every positive integer \<open>maxPages\<close> up to
  \<open>2^53\<close>, the run of \<open>getAllOrders\<close> returns, it has made at most \<open>maxPages\<close>
  fetches, whatever the fetched responses say about further pages and whether or not
  they can be handled, and when the loop ends normally \<open>pageCount\<close> is the number of
  fetches made, so it does not exceed \<open>maxPages\<close>.
\<close>

theorem getAllOrders_bounded:
  assumes integral: "effective_maxPages options = Num (of_int m)"
    and pos: "0 < m"
    and cap: "m \<le> 2 ^ 53"
  shows "\<exists>r lg w'.
           getAllOrders_loop (recording fetchPage) options (effective_maxPages options)
             initial_state ([], w) = Some (r, (lg, w')) \<and>
           (\<exists>res. getAllOrders (recording fetchPage) options ([], w) = Some (res, (lg, w'))) \<and>
           int (length lg) \<le> m \<and>
           (\<forall>st. r = Inr st \<longrightarrow> pageCount st = int (length lg) \<and> pageCount st \<le> m)"
proof -
  from loop_returns[OF cap, of "recording fetchPage" options initial_state "([], w)"] integral
  obtain r lg w' where
    run: "getAllOrders_loop (recording fetchPage) options (effective_maxPages options)
            initial_state ([], w) = Some (r, (lg, w'))"
    by (metis prod_cases3)
  from run_log_bound[of fetchPage options m initial_state "[]" w r lg w'] run integral pos cap
  have len: "int (length lg) \<le> m"
    by (auto simp: initial_state_def)
  from run_count[OF run] len cap
  have pc: "\<forall>st. r = Inr st \<longrightarrow> pageCount st = int (length lg)"
    by (auto simp: initial_state_def js_incr_funpow)
  from getAllOrders_of_loop[OF run]
  have "\<exists>res. getAllOrders (recording fetchPage) options ([], w) = Some (res, (lg, w'))"
    by blast
  with run len pc show ?thesis by auto
qed

text \<open>
  On the source whose every page reports a further page, with \<open>maxPages = 2\<close>: the run
  returns after two fetches, with \<open>pageCount = 2\<close>.
\<close>

theorem getAllOrders_bounded_witness:
  "effective_maxPages (default_options\<lparr>ao_maxPages := Some (Num 2)\<rparr>) = Num (of_int 2) \<and>
   (0::int) < 2 \<and> (2::int) \<le> 2 ^ 53 \<and>
   getAllOrders_loop (recording endless_source) (default_options\<lparr>ao_maxPages := Some (Num 2)\<rparr>)
     (effective_maxPages (default_options\<lparr>ao_maxPages := Some (Num 2)\<rparr>)) initial_state ([], 0)
   = Some (Inr \<lparr>allOrders = [JNum 0, JNum 1], cursor = JStr ''next'', hasNextPage = JBool True,
           pageCount = 2\<rparr>,
      ([(page_request (default_options\<lparr>ao_maxPages := Some (Num 2)\<rparr>) JUndefined,
         Inr (sample_page 0 True)),
        (page_request (default_options\<lparr>ao_maxPages := Some (Num 2)\<rparr>) (JStr ''next''),
         Inr (sample_page 1 True))],
       2)) \<and>
   (\<exists>r lg w'.
      getAllOrders_loop (recording endless_source)
        (default_options\<lparr>ao_maxPages := Some (Num 2)\<rparr>)
        (effective_maxPages (default_options\<lparr>ao_maxPages := Some (Num 2)\<rparr>))
        initial_state ([], 0) = Some (r, (lg, w')) \<and>
      int (length lg) \<le> 2)"
proof -
  have integral:
    "effective_maxPages (default_options\<lparr>ao_maxPages := Some (Num 2)\<rparr>) = Num (of_int 2)"
    by (simp add: effective_maxPages_def)
  have pos: "(0::int) < 2" by simp
  have cap: "(2::int) \<le> 2 ^ 53" by simp
  from getAllOrders_bounded[OF integral pos cap, of endless_source 0]
  have "\<exists>r lg w'.
      getAllOrders_loop (recording endless_source)
        (default_options\<lparr>ao_maxPages := Some (Num 2)\<rparr>)
        (effective_maxPages (default_options\<lparr>ao_maxPages := Some (Num 2)\<rparr>))
        initial_state ([], 0) = Some (r, (lg, w')) \<and>
      int (length lg) \<le> 2"
    by blast
  with integral pos cap endless_run2 show ?thesis by blast
qed

section \<open>A non-positive bound\<close>

text \<open>
  C10. When \<open>maxPages\<close> is less than or equal to zero the loop body never runs: no fetch
  is made (the outside state is returned as it was, for every fetcher), and the result is
  no orders, \<open>totalFetched = 0\<close> and \<open>hasMore = true\<close>.
\<close>

theorem getAllOrders_no_pages:
  assumes "ao_maxPages options = Some b" and "js_le_zero b"
  shows "getAllOrders fetchPage options w =
           Some (Inr \<lparr>orders = [], totalFetched = 0, hasMore = JBool True\<rparr>, w)"
proof -
  from assms(2) have "\<not> count_below 0 b" by (cases b) simp_all
  with assms(1)
  have "getAllOrders_loop fetchPage options (effective_maxPages options) initial_state w
          = Some (Inr initial_state, w)"
    by (intro loop_stop) (simp add: effective_maxPages_def initial_state_def)
  from getAllOrders_of_loop[OF this] show ?thesis by (simp add: initial_state_def)
qed

text \<open>With \<open>maxPages = 0\<close> on a recording source: the log stays empty.\<close>

theorem getAllOrders_no_pages_witness:
  "ao_maxPages (default_options\<lparr>ao_maxPages := Some (Num 0)\<rparr>) = Some (Num 0) \<and>
   js_le_zero (Num 0) \<and>
   getAllOrders (recording endless_source) (default_options\<lparr>ao_maxPages := Some (Num 0)\<rparr>)
     ([], 0)
     = Some (Inr \<lparr>orders = [], totalFetched = 0, hasMore = JBool True\<rparr>, ([], 0))"
  using getAllOrders_no_pages[of "default_options\<lparr>ao_maxPages := Some (Num 0)\<rparr>" "Num 0"
          "recording endless_source" "([], 0)"]
  by simp


section \<open>A rejected fetch\<close>

text \<open>A rejected fetch in the log of a returning run is its last entry and its result.\<close>

lemma failure_is_last:
  assumes run: "getAllOrders (recording fetchPage) options ([], w) = Some (res, (lg, w'))"
    and failed: "(req, Inl e) \<in> set lg"
  shows "res = Inl e \<and> last lg = (req, Inl e)"
proof -
  from run obtain r :: "error + loop_state" where
    res: "res = (case r of
        Inl e \<Rightarrow> Inl e
      | Inr st \<Rightarrow> Inr \<lparr>orders = allOrders st, totalFetched = length (allOrders st),
                       hasMore = hasNextPage st\<rparr>)"
    and early: "\<And>x. x \<in> set (butlast lg) \<Longrightarrow> \<exists>xs. outcome_items (snd x) = Inr xs"
    and ok: "\<And>st x. r = Inr st \<Longrightarrow> x \<in> set lg \<Longrightarrow> \<exists>xs. outcome_items (snd x) = Inr xs"
    and err: "\<And>e. r = Inl e \<Longrightarrow> lg \<noteq> [] \<and> outcome_items (snd (last lg)) = Inl e"
    by (rule run_from_start) (rule that; assumption)
  have bad: "\<not> (\<exists>xs. outcome_items (snd (req, Inl e :: error + jsval)) = Inr xs)"
    by (simp add: outcome_items_def)
  from failed have ne: "lg \<noteq> []" by auto
  from failed early bad have "(req, Inl e) \<notin> set (butlast lg)" by blast
  moreover from ne have "set lg = insert (last lg) (set (butlast lg))"
    by (metis append_butlast_last_id list.simps(15) rotate1.simps(2) set_rotate1)
  ultimately have last: "last lg = (req, Inl e)"
    using failed by auto
  show ?thesis
  proof (cases r)
    case (Inl e')
    with err last have "e' = e" by (simp add: outcome_items_def)
    with Inl res last show ?thesis by simp
  next
    case (Inr st)
    with ok failed bad show ?thesis by blast
  qed
qed

text \<open>
  C4. If a page fetch inside \<open>getAllOrders\<close> is rejected, \<open>getAllOrders\<close> is rejected
  with that same error and returns no result, whatever was accumulated from earlier
  pages; the rejected fetch is the last one made. At whatever state the loop is, whatever
  the bound, a rejected fetch makes the loop return that error at once.
\<close>

theorem getAllOrders_failure_propagates:
  "(getAllOrders (recording fetchPage) options ([], w) = Some (res, (lg, w')) \<and>
    (req, Inl e) \<in> set lg \<longrightarrow>
      res = Inl e \<and> last lg = (req, Inl e)) \<and>
   (truthy (hasNextPage st) \<and> count_below (pageCount st) b \<and>
    fetchPage w0 (page_request options (cursor st)) = (Inl e', w1) \<longrightarrow>
      getAllOrders_loop fetchPage options b st w0 = Some (Inl e', w1))"
  using failure_is_last[of fetchPage options w res lg w' req e]
    loop_reject[of st b fetchPage w0 options e' w1]
  by blast

text \<open>
  On the source whose second fetch is rejected: the first page's order is not returned,
  only the error.
\<close>

theorem getAllOrders_failure_propagates_witness:
  "getAllOrders (recording failing_source) default_options ([], 0) =
     Some (Inl (ToolError ''timeout''),
      ([(page_request default_options JUndefined, Inr (sample_page 0 True)),
        (page_request default_options (JStr ''next''), Inl (ToolError ''timeout''))], 2)) \<and>
   (page_request default_options (JStr ''next''), Inl (ToolError ''timeout''))
     \<in> set [(page_request default_options JUndefined, Inr (sample_page 0 True)),
             (page_request default_options (JStr ''next''), Inl (ToolError ''timeout''))] \<and>
   last [(page_request default_options JUndefined, Inr (sample_page 0 True)),
         (page_request default_options (JStr ''next''), Inl (ToolError ''timeout''))]
     = (page_request default_options (JStr ''next''), Inl (ToolError ''timeout'')) \<and>
   truthy (hasNextPage (next_state initial_state (sample_page 0 True) [JNum 0])) \<and>
   count_below (pageCount (next_state initial_state (sample_page 0 True) [JNum 0])) (Num 10) \<and>
   failing_source 1
     (page_request default_options
        (cursor (next_state initial_state (sample_page 0 True) [JNum 0])))
     = (Inl (ToolError ''timeout''), 2) \<and>
   getAllOrders_loop failing_source default_options (Num 10)
     (next_state initial_state (sample_page 0 True) [JNum 0]) 1
     = Some (Inl (ToolError ''timeout''), 2)"
proof -
  let ?st1 = "next_state initial_state (sample_page 0 True) [JNum 0]"
  have g1: "truthy (hasNextPage ?st1)"
    by (simp add: next_state_def page_hasNextPage_sample)
  have g2: "count_below (pageCount ?st1) (Num 10)"
    by (simp add: next_state_def initial_state_def js_incr_def)
  have g3: "failing_source 1 (page_request default_options (cursor ?st1))
              = (Inl (ToolError ''timeout''), 2)"
    by (simp add: failing_source_def)
  have run: "getAllOrders (recording failing_source) default_options ([], 0) =
     Some (Inl (ToolError ''timeout''),
      ([(page_request default_options JUndefined, Inr (sample_page 0 True)),
        (page_request default_options (JStr ''next''), Inl (ToolError ''timeout''))], 2))"
    unfolding getAllOrders_def
    by (subst getAllOrders_loop.simps,
        simp add: handle_response_eq recording_def failing_source_def effective_maxPages_def
          page_items_sample page_hasNextPage_sample page_cursor_sample initial_state_def
          default_options_def
          js_incr_def)+
  have failed: "(page_request default_options (JStr ''next''), Inl (ToolError ''timeout''))
     \<in> set [(page_request default_options JUndefined, Inr (sample_page 0 True)),
             (page_request default_options (JStr ''next''), Inl (ToolError ''timeout''))]"
    by simp
  from getAllOrders_failure_propagates[of failing_source default_options 0
         "Inl (ToolError ''timeout'')"
         "[(page_request default_options JUndefined, Inr (sample_page 0 True)),
           (page_request default_options (JStr ''next''), Inl (ToolError ''timeout''))]"
         2 "page_request default_options (JStr ''next'')" "ToolError ''timeout''"
         ?st1 "Num 10" 1 "ToolError ''timeout''" 2,
         THEN conjunct1] run failed
  have "last [(page_request default_options JUndefined, Inr (sample_page 0 True)),
         (page_request default_options (JStr ''next''), Inl (ToolError ''timeout''))]
     = (page_request default_options (JStr ''next''), Inl (ToolError ''timeout''))"
    by blast
  moreover
  from getAllOrders_failure_propagates[of failing_source default_options 0
         "Inl (ToolError ''timeout'')"
         "[(page_request default_options JUndefined, Inr (sample_page 0 True)),
           (page_request default_options (JStr ''next''), Inl (ToolError ''timeout''))]"
         2 "page_request default_options (JStr ''next'')" "ToolError ''timeout''"
         ?st1 "Num 10" 1 "ToolError ''timeout''" 2,
         THEN conjunct2] g1 g2 g3
  have "getAllOrders_loop failing_source default_options (Num 10) ?st1 1
          = Some (Inl (ToolError ''timeout''), 2)"
    by blast
  ultimately show ?thesis using run failed g1 g2 g3 by blast
qed

section \<open>Exhaustion on the second page\<close>

text \<open>
  C3. If the first fetch resolves to a page that reports a further page and the second
  fetch, made with the first page's cursor, resolves to a page that reports
  \<open>hasNextPage = false\<close>, then with \<open>maxPages\<close> at least 2 \<open>getAllOrders\<close> makes exactly
  these two fetches and returns the items of page 1 followed by those of page 2, with
  \<open>hasMore = false\<close>. The bound is stated as \<open>1 < maxPages\<close>, which for an integer is
  \<open>2 \<le> maxPages\<close> and which also holds of \<open>Infinity\<close>, the unbounded maximum.
\<close>

theorem getAllOrders_exhaustion:
  assumes first: "fetchPage w (page_request options JUndefined) = (Inr p1, w1)"
    and items1: "page_items p1 = Inr xs1"
    and more1: "truthy (page_hasNextPage p1)"
    and second: "fetchPage w1 (page_request options (page_cursor p1 JUndefined)) = (Inr p2, w2)"
    and items2: "page_items p2 = Inr xs2"
    and done2: "page_hasNextPage p2 = JBool False"
    and bound: "count_below 1 (effective_maxPages options)"
  shows "getAllOrders (recording fetchPage) options ([], w) =
           Some (Inr \<lparr>orders = xs1 @ xs2, totalFetched = length xs1 + length xs2,
                 hasMore = JBool False\<rparr>,
            ([(page_request options JUndefined, Inr p1),
              (page_request options (page_cursor p1 JUndefined), Inr p2)], w2))"
proof -
  let ?m = "effective_maxPages options"
  let ?req1 = "page_request options JUndefined"
  let ?req2 = "page_request options (page_cursor p1 JUndefined)"
  let ?st1 = "next_state initial_state p1 xs1"
  let ?st2 = "next_state ?st1 p2 xs2"
  have bound0: "count_below 0 (effective_maxPages options)"
    using bound by (cases "effective_maxPages options") simp_all
  have c1: "cursor ?st1 = page_cursor p1 JUndefined" "hasNextPage ?st1 = page_hasNextPage p1"
    "pageCount ?st1 = 1" "allOrders ?st1 = xs1"
    by (simp_all add: next_state_def initial_state_def js_incr_def)
  have c2: "hasNextPage ?st2 = JBool False" "allOrders ?st2 = xs1 @ xs2"
    using done2 c1 by (simp_all add: next_state_def)
  have r1: "recording fetchPage ([], w) (page_request options (cursor initial_state))
              = (Inr p1, ([(?req1, Inr p1)], w1))"
    using first by (simp add: recording_def initial_state_def)
  have r2: "recording fetchPage ([(?req1, Inr p1)], w1) (page_request options (cursor ?st1))
              = (Inr p2, ([(?req1, Inr p1), (?req2, Inr p2)], w2))"
    using second c1 by (simp add: recording_def)
  have s1: "getAllOrders_loop (recording fetchPage) options ?m initial_state ([], w)
          = getAllOrders_loop (recording fetchPage) options ?m ?st1 ([(?req1, Inr p1)], w1)"
    using bound0 r1 items1
    by (intro loop_step[where g = "recording fetchPage" and result = p1])
       (simp_all add: initial_state_def)
  have s2: "getAllOrders_loop (recording fetchPage) options ?m ?st1 ([(?req1, Inr p1)], w1)
          = getAllOrders_loop (recording fetchPage) options ?m ?st2
              ([(?req1, Inr p1), (?req2, Inr p2)], w2)"
    using bound more1 c1 r2 items2
    by (intro loop_step[where g = "recording fetchPage" and result = p2]) simp_all
  have s3: "getAllOrders_loop (recording fetchPage) options ?m ?st2
              ([(?req1, Inr p1), (?req2, Inr p2)], w2)
          = Some (Inr ?st2, ([(?req1, Inr p1), (?req2, Inr p2)], w2))"
    using c2 by (intro loop_stop) simp
  from s1 s2 s3
  have "getAllOrders_loop (recording fetchPage) options ?m initial_state ([], w)
          = Some (Inr ?st2, ([(?req1, Inr p1), (?req2, Inr p2)], w2))"
    by simp
  from getAllOrders_of_loop[OF this] c2 show ?thesis by simp
qed

text \<open>
  On the two-page source with the default bound of 10: both orders, in page order, and
  the source is left after its second page.
\<close>

theorem getAllOrders_exhaustion_witness:
  "two_page_source 0 (page_request default_options JUndefined) = (Inr (sample_page 0 True), 1) \<and>
   page_items (sample_page 0 True) = Inr [JNum 0] \<and>
   truthy (page_hasNextPage (sample_page 0 True)) \<and>
   two_page_source 1 (page_request default_options (page_cursor (sample_page 0 True) JUndefined))
     = (Inr (sample_page 1 False), 2) \<and>
   page_items (sample_page 1 False) = Inr [JNum 1] \<and>
   page_hasNextPage (sample_page 1 False) = JBool False \<and>
   count_below 1 (effective_maxPages default_options) \<and>
   getAllOrders (recording two_page_source) default_options ([], 0) =
     Some (Inr \<lparr>orders = [JNum 0, JNum 1], totalFetched = 2, hasMore = JBool False\<rparr>,
      ([(page_request default_options JUndefined, Inr (sample_page 0 True)),
        (page_request default_options (page_cursor (sample_page 0 True) JUndefined),
         Inr (sample_page 1 False))], 2))"
proof -
  have h1: "two_page_source 0 (page_request default_options JUndefined)
              = (Inr (sample_page 0 True), 1)"
    by (simp add: two_page_source_def)
  have h2: "page_items (sample_page 0 True) = Inr [JNum 0]"
    using page_items_sample[of 0 True] by simp
  have h3: "truthy (page_hasNextPage (sample_page 0 True))"
    by (simp add: page_hasNextPage_sample)
  have h4: "two_page_source 1
              (page_request default_options (page_cursor (sample_page 0 True) JUndefined))
              = (Inr (sample_page 1 False), 2)"
    by (simp add: two_page_source_def)
  have h5: "page_items (sample_page 1 False) = Inr [JNum 1]"
    using page_items_sample[of 1 False] by simp
  have h6: "page_hasNextPage (sample_page 1 False) = JBool False"
    by (simp add: page_hasNextPage_sample)
  have h7: "count_below 1 (effective_maxPages default_options)"
    by (simp add: effective_maxPages_def default_options_def)
  from getAllOrders_exhaustion[OF h1 h2 h3 h4 h5 h6 h7] h1 h2 h3 h4 h5 h6 h7
  show ?thesis by simp
qed



section \<open>The \<open>hasMore\<close> flag\<close>

text \<open>
  What \<open>hasMore\<close> is after a run that fetched something: the value the last fetched
  page gave to \<open>hasNextPage\<close>; and it can only be truthy when the bound stopped the
  loop, that is, when the number of pages fetched is no longer below \<open>maxPages\<close>.
\<close>

lemma hasMore_general:
  assumes pos: "count_below 0 (effective_maxPages options)"
    and run: "getAllOrders (recording fetchPage) options ([], w) = Some (Inr res, (lg, w'))"
  shows "lg \<noteq> [] \<and>
         hasMore res = outcome_hasNextPage (snd (last lg)) \<and>
         (truthy (hasMore res) \<longrightarrow>
            \<not> count_below (int (length lg)) (effective_maxPages options)) \<and>
         (truthy (hasMore res) \<longrightarrow>
            \<not> count_below (min (2 ^ 53) (int (length lg))) (effective_maxPages options)) \<and>
         orders res = concat (map log_items lg)"
proof -
  from run obtain r :: "error + loop_state" where r: "Inr res = (case r of
        Inl e \<Rightarrow> Inl e
      | Inr st \<Rightarrow> Inr \<lparr>orders = allOrders st, totalFetched = length (allOrders st),
                       hasMore = hasNextPage st\<rparr>)"
    and pc: "\<And>st. r = Inr st \<Longrightarrow> pageCount st = min (2 ^ 53) (int (length lg))"
    and items: "\<And>st. r = Inr st \<Longrightarrow> allOrders st = concat (map log_items lg)"
    and nxt: "\<And>st. r = Inr st \<Longrightarrow> lg \<noteq> [] \<Longrightarrow>
                hasNextPage st = outcome_hasNextPage (snd (last lg))"
    and none: "\<And>st. r = Inr st \<Longrightarrow> lg = [] \<Longrightarrow> st = initial_state"
    and stop: "\<And>st. r = Inr st \<Longrightarrow>
       \<not> (truthy (hasNextPage st) \<and> count_below (pageCount st) (effective_maxPages options))"
    by (rule run_from_start) (rule that; assumption)
  from r obtain st where st: "r = Inr st"
    and res: "res = \<lparr>orders = allOrders st, totalFetched = length (allOrders st),
                       hasMore = hasNextPage st\<rparr>"
    by (cases r) auto
  have ne: "lg \<noteq> []"
  proof
    assume "lg = []"
    with none[OF st] have "st = initial_state" by simp
    with stop[OF st] pos show False by (simp add: initial_state_def)
  qed
  have h: "hasMore res = outcome_hasNextPage (snd (last lg))"
    using nxt[OF st ne] res by simp
  have c: "truthy (hasMore res) \<longrightarrow>
             \<not> count_below (min (2 ^ 53) (int (length lg))) (effective_maxPages options)"
    using stop[OF st] pc[OF st] res by auto
  have "min (2 ^ 53) (int (length lg)) \<le> int (length lg)" by simp
  with c have b: "truthy (hasMore res) \<longrightarrow>
             \<not> count_below (int (length lg)) (effective_maxPages options)"
    using count_below_mono by blast
  have o: "orders res = concat (map log_items lg)"
    using items[OF st] res by simp
  from ne h b c o show ?thesis by blast
qed

text \<open>
  Under a positive integer bound a truthy \<open>hasMore\<close> means exactly that many fetches.
  (A bound above \<open>2^53\<close> never stops the loop, so there \<open>hasMore\<close> is not truthy.)
\<close>

lemma hasMore_integral:
  assumes integral: "effective_maxPages options = Num (of_int m)"
    and pos: "0 < m"
    and run: "getAllOrders (recording fetchPage) options ([], w) = Some (Inr res, (lg, w'))"
    and more: "truthy (hasMore res)"
  shows "int (length lg) = m"
proof -
  have pos': "count_below 0 (effective_maxPages options)"
    using integral pos by simp
  from hasMore_general[OF pos' run] more
  have "\<not> count_below (min (2 ^ 53) (int (length lg))) (effective_maxPages options)"
    by blast
  with integral have low: "m \<le> min (2 ^ 53) (int (length lg))"
    by (simp only: count_below.simps of_int_less_iff not_less)
  from low have cap: "m \<le> 2 ^ 53" by simp
  from low have "m \<le> int (length lg)" by simp
  moreover
  from run obtain r :: "error + loop_state" where
    "getAllOrders_loop (recording fetchPage) options (effective_maxPages options)
       initial_state ([], w) = Some (r, (lg, w'))"
    by (rule loop_of_getAllOrders)
  with integral
  have "getAllOrders_loop (recording fetchPage) options (Num (of_int m))
          initial_state ([], w) = Some (r, (lg, w'))"
    by simp
  from run_log_bound[OF this cap] pos have "int (length lg) \<le> m"
    by (auto simp: initial_state_def)
  ultimately show ?thesis by simp
qed

text \<open>
  A source whose every answer can be handled and reports a further page is read up to a
  positive integer bound that the counter can reach, and the run succeeds.
\<close>

lemma always_more_run:
  assumes always: "\<And>w req. \<exists>xs. outcome_items (fst (fetchPage w req)) = Inr xs \<and>
                   outcome_hasNextPage (fst (fetchPage w req)) = JBool True"
    and integral: "effective_maxPages options = Num (of_int m)"
    and pos: "0 < m"
    and cap: "m \<le> 2 ^ 53"
  shows "\<exists>res lg w'.
           getAllOrders (recording fetchPage) options ([], w) = Some (Inr res, (lg, w')) \<and>
           int (length lg) = m \<and>
           orders res = concat (map log_items lg) \<and>
           totalFetched res = length (orders res) \<and>
           hasMore res = JBool True"
proof -
  have pos': "count_below 0 (effective_maxPages options)"
    using integral pos by simp
  from loop_returns[OF cap, of "recording fetchPage" options initial_state "([], w)"] integral
  obtain r0 lg w' where
    "getAllOrders_loop (recording fetchPage) options (effective_maxPages options)
       initial_state ([], w) = Some (r0, (lg, w'))"
    by (metis prod_cases3)
  from getAllOrders_of_loop[OF this]
  obtain res where run:
    "getAllOrders (recording fetchPage) options ([], w) = Some (res, (lg, w'))"
    by blast
  from run obtain r :: "error + loop_state" where r: "res = (case r of
        Inl e \<Rightarrow> Inl e
      | Inr st \<Rightarrow> Inr \<lparr>orders = allOrders st, totalFetched = length (allOrders st),
                       hasMore = hasNextPage st\<rparr>)"
    and from_f: "\<And>x. x \<in> set lg \<Longrightarrow> \<exists>w. snd x = fst (fetchPage w (fst x))"
    and err: "\<And>e. r = Inl e \<Longrightarrow> lg \<noteq> [] \<and> outcome_items (snd (last lg)) = Inl e"
    by (rule run_from_start) (rule that; assumption)
  have ok: "\<exists>xs. outcome_items (snd x) = Inr xs \<and> outcome_hasNextPage (snd x) = JBool True"
    if "x \<in> set lg" for x
    using from_f[OF that] always by metis
  obtain st where st: "r = Inr st"
  proof (cases r)
    case (Inl e)
    from err[OF Inl] have "lg \<noteq> []" "outcome_items (snd (last lg)) = Inl e" by simp_all
    moreover from this(1) have "last lg \<in> set lg" by simp
    ultimately show ?thesis using ok by fastforce
  next
    case (Inr st)
    then show ?thesis by (rule that)
  qed
  with r have res: "res = Inr \<lparr>orders = allOrders st, totalFetched = length (allOrders st),
                       hasMore = hasNextPage st\<rparr>" (is "_ = Inr ?res")
    by simp
  from run res
  have run': "getAllOrders (recording fetchPage) options ([], w) = Some (Inr ?res, (lg, w'))"
    by simp
  from hasMore_general[OF pos' run']
  have ne: "lg \<noteq> []" and h: "hasMore ?res = outcome_hasNextPage (snd (last lg))"
    and o: "orders ?res = concat (map log_items lg)"
    by blast+
  from ne have "last lg \<in> set lg" by simp
  from ok[OF this] h have t: "hasMore ?res = JBool True" by auto
  then have "truthy (hasMore ?res)" by simp
  from hasMore_integral[OF integral pos run' this]
  have "int (length lg) = m" .
  with run' o t show ?thesis by auto
qed

lemma flag_run_one:
  "getAllOrders (recording (flag_source (JNum 1)))
     (default_options\<lparr>ao_maxPages := Some (Num 1)\<rparr>) ([], 0)
   = Some (Inr \<lparr>orders = [JNum 0], totalFetched = 1, hasMore = JNum 1\<rparr>,
       ([(page_request (default_options\<lparr>ao_maxPages := Some (Num 1)\<rparr>) JUndefined,
          Inr (flag_page (JNum 1) 0))], 1))"
  unfolding getAllOrders_def
  by (subst getAllOrders_loop.simps,
      simp add: handle_response_eq recording_def flag_source_def effective_maxPages_def
        page_items_flag page_hasNextPage_flag page_cursor_flag initial_state_def
        nullish_or_def
          js_incr_def)+

lemma flag_run_zero:
  "getAllOrders (recording (flag_source (JNum 0))) default_options ([], 0)
   = Some (Inr \<lparr>orders = [JNum 0], totalFetched = 1, hasMore = JNum 0\<rparr>,
       ([(page_request default_options JUndefined, Inr (flag_page (JNum 0) 0))], 1))"
  unfolding getAllOrders_def
  by (subst getAllOrders_loop.simps,
      simp add: handle_response_eq recording_def flag_source_def effective_maxPages_def
        page_items_flag page_hasNextPage_flag page_cursor_flag initial_state_def
        nullish_or_def default_options_def
          js_incr_def)+

text \<open>
  C2, as stated, fails in three ways. At \<open>maxPages = 0\<close> the result says
  \<open>hasMore = true\<close> although the log of fetches is empty, so there is no last fetched
  page that reported a further page. When the only page fetched under \<open>maxPages = 1\<close>
  reports \<open>hasNextPage: 1\<close>, the bound stops the loop while the page reported a further
  page, and \<open>hasMore\<close> is \<open>1\<close>, not \<open>true\<close>. When the first page reports
  \<open>hasNextPage: 0\<close>, the source is exhausted, and \<open>hasMore\<close> is \<open>0\<close>, not \<open>false\<close>.
\<close>

theorem getAllOrders_hasMore_counterexample:
  "getAllOrders (recording endless_source) (default_options\<lparr>ao_maxPages := Some (Num 0)\<rparr>)
     ([], 0)
     = Some (Inr \<lparr>orders = [], totalFetched = 0, hasMore = JBool True\<rparr>, ([], 0)) \<and>
   getAllOrders (recording (flag_source (JNum 1)))
     (default_options\<lparr>ao_maxPages := Some (Num 1)\<rparr>) ([], 0)
     = Some (Inr \<lparr>orders = [JNum 0], totalFetched = 1, hasMore = JNum 1\<rparr>,
         ([(page_request (default_options\<lparr>ao_maxPages := Some (Num 1)\<rparr>) JUndefined,
            Inr (flag_page (JNum 1) 0))], 1)) \<and>
   getAllOrders (recording (flag_source (JNum 0))) default_options ([], 0)
     = Some (Inr \<lparr>orders = [JNum 0], totalFetched = 1, hasMore = JNum 0\<rparr>,
         ([(page_request default_options JUndefined, Inr (flag_page (JNum 0) 0))], 1))"
  using flag_run_one flag_run_zero
  by (simp add: getAllOrders_def effective_maxPages_def loop_stop initial_state_def)

text \<open>
  C2, amended. For every \<open>maxPages\<close> above zero, a run of \<open>getAllOrders\<close> that returns a
  result has fetched at least one page, and \<open>hasMore\<close> is the value the last fetched page
  gave to \<open>hasNextPage\<close> (its \<open>pageInfo.hasNextPage\<close>, or \<open>false\<close> when that is missing
  or the response is a bare array or of unknown shape). \<open>hasMore\<close> is truthy only if the
  bound stopped the loop, that is, only if the number of pages fetched is not below
  \<open>maxPages\<close>; for an integer \<open>maxPages\<close>, only if exactly \<open>maxPages\<close> pages were
  fetched. With a fetcher that always reports \<open>hasNextPage = true\<close> and \<open>maxPages = 3\<close>,
  the run returns a result holding exactly the items of the three fetched pages, in
  order, and \<open>hasMore = true\<close>.
\<close>

theorem getAllOrders_hasMore:
  assumes pos: "count_below 0 (effective_maxPages options)"
  shows "(\<forall>res lg w'.
            getAllOrders (recording fetchPage) options ([], w) = Some (Inr res, (lg, w')) \<longrightarrow>
              lg \<noteq> [] \<and>
              hasMore res = outcome_hasNextPage (snd (last lg)) \<and>
              (truthy (hasMore res) \<longrightarrow>
                 \<not> count_below (int (length lg)) (effective_maxPages options)) \<and>
              (\<forall>m. effective_maxPages options = Num (of_int m) \<and> truthy (hasMore res) \<longrightarrow>
                 int (length lg) = m)) \<and>
         ((\<forall>w req. \<exists>xs. outcome_items (fst (fetchPage w req)) = Inr xs \<and>
                     outcome_hasNextPage (fst (fetchPage w req)) = JBool True) \<and>
          ao_maxPages options = Some (Num 3) \<longrightarrow>
            (\<exists>res lg w'.
               getAllOrders (recording fetchPage) options ([], w) = Some (Inr res, (lg, w')) \<and>
               length lg = 3 \<and>
               orders res = concat (map log_items lg) \<and>
               totalFetched res = length (orders res) \<and>
               hasMore res = JBool True))"
proof (intro conjI allI impI)
  fix res lg w'
  assume run: "getAllOrders (recording fetchPage) options ([], w) = Some (Inr res, (lg, w'))"
  from hasMore_general[OF pos run]
  show "lg \<noteq> []" and "hasMore res = outcome_hasNextPage (snd (last lg))"
    by blast+
  {
    assume "truthy (hasMore res)"
    with hasMore_general[OF pos run]
    show "\<not> count_below (int (length lg)) (effective_maxPages options)" by blast
  }
  fix m
  assume a: "effective_maxPages options = Num (of_int m) \<and> truthy (hasMore res)"
  with pos have "0 < m" by simp
  with a hasMore_integral[of options m fetchPage w res lg w'] run
  show "int (length lg) = m" by blast
next
  assume a: "(\<forall>w req. \<exists>xs. outcome_items (fst (fetchPage w req)) = Inr xs \<and>
                     outcome_hasNextPage (fst (fetchPage w req)) = JBool True) \<and>
          ao_maxPages options = Some (Num 3)"
  then have m: "effective_maxPages options = Num (of_int 3)"
    by (simp add: effective_maxPages_def)
  from a have always: "\<And>w req. \<exists>xs. outcome_items (fst (fetchPage w req)) = Inr xs \<and>
                     outcome_hasNextPage (fst (fetchPage w req)) = JBool True"
    by blast
  from always_more_run[of fetchPage options 3 w, OF always m]
  show "\<exists>res lg w'.
               getAllOrders (recording fetchPage) options ([], w) = Some (Inr res, (lg, w')) \<and>
               length lg = 3 \<and>
               orders res = concat (map log_items lg) \<and>
               totalFetched res = length (orders res) \<and>
               hasMore res = JBool True"
    by auto
qed

text \<open>
  On the source whose every page reports a further page, with \<open>maxPages = 3\<close>: three
  fetches, the three orders, and \<open>hasMore = true\<close>, the value of the third page.
\<close>

theorem getAllOrders_hasMore_witness:
  "count_below 0 (effective_maxPages (default_options\<lparr>ao_maxPages := Some (Num 3)\<rparr>)) \<and>
   (\<forall>w req. \<exists>xs. outcome_items (fst (endless_source w req)) = Inr xs \<and>
               outcome_hasNextPage (fst (endless_source w req)) = JBool True) \<and>
   ao_maxPages (default_options\<lparr>ao_maxPages := Some (Num 3)\<rparr>) = Some (Num 3) \<and>
   effective_maxPages (default_options\<lparr>ao_maxPages := Some (Num 3)\<rparr>) = Num (of_int 3) \<and>
   getAllOrders (recording endless_source) (default_options\<lparr>ao_maxPages := Some (Num 3)\<rparr>)
     ([], 0) =
     Some (Inr \<lparr>orders = [JNum 0, JNum 1, JNum 2], totalFetched = 3, hasMore = JBool True\<rparr>,
      ([(page_request (default_options\<lparr>ao_maxPages := Some (Num 3)\<rparr>) JUndefined,
         Inr (sample_page 0 True)),
        (page_request (default_options\<lparr>ao_maxPages := Some (Num 3)\<rparr>) (JStr ''next''),
         Inr (sample_page 1 True)),
        (page_request (default_options\<lparr>ao_maxPages := Some (Num 3)\<rparr>) (JStr ''next''),
         Inr (sample_page 2 True))], 3)) \<and>
   truthy (JBool True) \<and>
   JBool True =
     outcome_hasNextPage
       (snd (page_request (default_options\<lparr>ao_maxPages := Some (Num 3)\<rparr>) (JStr ''next''),
             Inr (sample_page 2 True) :: error + jsval)) \<and>
   (\<exists>res lg w'.
      getAllOrders (recording endless_source) (default_options\<lparr>ao_maxPages := Some (Num 3)\<rparr>)
        ([], 0) = Some (Inr res, (lg, w')) \<and>
      length lg = 3 \<and> orders res = concat (map log_items lg) \<and>
      totalFetched res = length (orders res) \<and> hasMore res = JBool True)"
proof -
  let ?opts = "default_options\<lparr>ao_maxPages := Some (Num 3)\<rparr>"
  have pos: "count_below 0 (effective_maxPages ?opts)"
    by (simp add: effective_maxPages_def)
  have always: "\<forall>w req. \<exists>xs. outcome_items (fst (endless_source w req)) = Inr xs \<and>
               outcome_hasNextPage (fst (endless_source w req)) = JBool True"
    by (simp add: endless_source_def outcome_items_def outcome_hasNextPage_def
          page_items_sample page_hasNextPage_sample)
  have three: "ao_maxPages ?opts = Some (Num 3)" by simp
  have integral: "effective_maxPages ?opts = Num (of_int 3)"
    by (simp add: effective_maxPages_def)
  have run: "getAllOrders (recording endless_source) ?opts ([], 0) =
     Some (Inr \<lparr>orders = [JNum 0, JNum 1, JNum 2], totalFetched = 3, hasMore = JBool True\<rparr>,
      ([(page_request ?opts JUndefined, Inr (sample_page 0 True)),
        (page_request ?opts (JStr ''next''), Inr (sample_page 1 True)),
        (page_request ?opts (JStr ''next''), Inr (sample_page 2 True))], 3))"
    unfolding getAllOrders_def
    by (subst getAllOrders_loop.simps,
        simp add: handle_response_eq recording_def endless_source_def effective_maxPages_def
          page_items_sample page_hasNextPage_sample page_cursor_sample initial_state_def
          numeral_2_eq_2
          js_incr_def)+
  have t: "truthy (JBool True)" by simp
  have last: "JBool True =
     outcome_hasNextPage
       (snd (page_request ?opts (JStr ''next''), Inr (sample_page 2 True) :: error + jsval))"
    by (simp add: outcome_hasNextPage_def page_hasNextPage_sample)
  from getAllOrders_hasMore[OF pos, of endless_source 0] always three
  have "\<exists>res lg w'.
      getAllOrders (recording endless_source) ?opts ([], 0) = Some (Inr res, (lg, w')) \<and>
      length lg = 3 \<and> orders res = concat (map log_items lg) \<and>
      totalFetched res = length (orders res) \<and> hasMore res = JBool True"
    by blast
  with pos always three integral run t last show ?thesis by blast
qed

section \<open>Responses of unexpected shape\<close>

text \<open>
  A response that is not \<open>null\<close> or \<open>undefined\<close>, and whose \<open>orders\<close> property is
  falsy, an array or a string, is handled without an exception.
\<close>

lemma page_items_tolerant:
  assumes "\<not> nullish result"
    and "\<not> truthy (opt_field result ''orders'') \<or>
         (\<exists>xs. opt_field result ''orders'' = JArr xs) \<or>
         (\<exists>s. opt_field result ''orders'' = JStr s)"
  shows "\<exists>xs. page_items result = Inr xs"
  using assms
  by (cases result) (auto simp: page_items_def opt_field_def)

text \<open>
  C6. The claim is that no response shape makes the aggregator crash: a bare array is a
  final page, an object with an \<open>orders\<close> property is a page, and any other value is one
  page holding that value. On the response \<open>null\<close> the code does crash: \<open>null\<close> is not an
  array, and reading \<open>result.orders\<close> from it throws a \<open>TypeError\<close>, which rejects
  \<open>getAllOrders\<close> on the first page.
\<close>

theorem getAllOrders_null_response:
  "getAllOrders (\<lambda>w req. (Inr JNull, w)) default_options w = Some (Inl TypeError, w)"
proof -
  have "getAllOrders_loop (\<lambda>w req. (Inr JNull, w)) default_options
          (effective_maxPages default_options) initial_state w = Some (Inl TypeError, w)"
    by (rule loop_malformed[where result = JNull])
       (simp_all add: initial_state_def effective_maxPages_def page_items_def
          default_options_def)
  from getAllOrders_of_loop[OF this] show ?thesis by simp
qed

text \<open>The same happens on an object whose \<open>orders\<close> property is a number: the spread throws.\<close>

lemma getAllOrders_orders_not_iterable:
  "getAllOrders (\<lambda>w req. (Inr (JObj [(''orders'', JNum 5)]), w)) default_options w
     = Some (Inl TypeError, w)"
proof -
  have "getAllOrders_loop (\<lambda>w req. (Inr (JObj [(''orders'', JNum 5)]), w)) default_options
          (effective_maxPages default_options) initial_state w = Some (Inl TypeError, w)"
    by (rule loop_malformed[where result = "JObj [(''orders'', JNum 5)]"])
       (simp_all add: initial_state_def effective_maxPages_def page_items_def
          default_options_def)
  from getAllOrders_of_loop[OF this] show ?thesis by simp
qed


section \<open>Cache keys\<close>

lemma createCacheKey_prefix: "prefix namespace (createCacheKey namespace params)"
  by (simp add: createCacheKey_def)

lemma createCacheKey_omits_absent:
  "createCacheKey namespace params = createCacheKey namespace (filter present params)"
  by (simp add: createCacheKey_def)

text \<open>
  Two parameter objects with the same properties have the same sorted list of present
  properties: property names are unique, so sorting by name leaves no freedom.
\<close>

lemma sorted_present_perm:
  assumes "distinct (map fst p1)" and "mset p1 = mset p2"
  shows "sort_key fst (filter present p1) = sort_key fst (filter present p2)"
proof (rule sort_key_inj_key_eq)
  from assms(2) have "mset (filter present p1) = mset (filter present p2)"
    by (metis mset_filter)
  then show "mset (filter present p1) = mset (sort_key fst (filter present p2))"
    by simp
  from assms(1) have "inj_on fst (set p1)"
    by (simp add: distinct_map)
  then show "inj_on fst (set (filter present p1))"
    by (rule inj_on_subset) auto
  show "sorted (map fst (sort_key fst (filter present p2)))"
    by simp
qed

text \<open>
  C8. For every namespace and every two parameter objects holding the same key/value
  pairs in different insertion order (lists of properties with unique names that are
  permutations of each other), \<open>createCacheKey\<close> gives the same key; the key is the one
  of the parameters whose value is not absent, so absent ones leave no trace in it; and
  the namespace is a prefix of the key.
\<close>

theorem createCacheKey_deterministic:
  assumes "distinct (map fst p1)" and "mset p1 = mset p2"
  shows "createCacheKey namespace p1 = createCacheKey namespace p2 \<and>
         createCacheKey namespace p1 = createCacheKey namespace (filter present p1) \<and>
         prefix namespace (createCacheKey namespace p1)"
  using sorted_present_perm[OF assms] createCacheKey_omits_absent[of namespace p1]
    createCacheKey_prefix[of namespace p1]
  by (simp add: createCacheKey_def)

text \<open>
  Three parameters, one of them absent, in two insertion orders: both give
  \<open>orders:limit=50&status=open\<close>.
\<close>

theorem createCacheKey_deterministic_witness:
  "distinct (map fst [(''status'', JStr ''open''), (''limit'', JNum 50), (''after'', JUndefined)]) \<and>
   mset [(''status'', JStr ''open''), (''limit'', JNum 50), (''after'', JUndefined)] =
     mset [(''limit'', JNum 50), (''after'', JUndefined), (''status'', JStr ''open'')] \<and>
   createCacheKey ''orders''
     [(''status'', JStr ''open''), (''limit'', JNum 50), (''after'', JUndefined)]
     = ''orders:limit=50&status=open'' \<and>
   createCacheKey ''orders''
     [(''limit'', JNum 50), (''after'', JUndefined), (''status'', JStr ''open'')]
     = ''orders:limit=50&status=open'' \<and>
   createCacheKey ''orders'' [(''status'', JStr ''open''), (''limit'', JNum 50)]
     = ''orders:limit=50&status=open'' \<and>
   prefix ''orders'' ''orders:limit=50&status=open''"
proof -
  let ?p1 = "[(''status'', JStr ''open''), (''limit'', JNum 50), (''after'', JUndefined)]"
  let ?p2 = "[(''limit'', JNum 50), (''after'', JUndefined), (''status'', JStr ''open'')]"
  have d: "distinct (map fst ?p1)" by simp
  have m: "mset ?p1 = mset ?p2" by simp
  have k1: "createCacheKey ''orders'' ?p1 = ''orders:limit=50&status=open''"
    by (simp add: createCacheKey_def present_def show_int_def show_nat.simps)
  have f: "filter present ?p1 = [(''status'', JStr ''open''), (''limit'', JNum 50)]"
    by (simp add: present_def)
  note key = createCacheKey_deterministic[OF d m, of "''orders''"]
  from key[THEN conjunct1] k1
  have k2: "createCacheKey ''orders'' ?p2 = ''orders:limit=50&status=open''"
    by metis
  from key[THEN conjunct2, THEN conjunct1] k1 f
  have k3: "createCacheKey ''orders'' [(''status'', JStr ''open''), (''limit'', JNum 50)]
              = ''orders:limit=50&status=open''"
    by metis
  from key[THEN conjunct2, THEN conjunct2] k1
  have px: "prefix ''orders'' ''orders:limit=50&status=open''"
    by metis
  from d m k1 k2 k3 px show ?thesis by blast
qed


section \<open>Read-through\<close>

lemma map_of_cache_put_same: "map_of (cache_put key e es) key = Some e"
  by (simp add: cache_put_def)

lemma getOrFetch_hit:
  assumes "\<not> bypassCache opts" and "enabled store" and "cache_lookup store now key = Some e"
  shows "getOrFetch key fetchFn opts now (store, w) =
           (Inr (val e), store\<lparr>stats := (stats store)\<lparr>hits := hits (stats store) + 1\<rparr>\<rparr>, w)"
  using assms by (simp add: getOrFetch_def)

text \<open>Without a fresh entry, or when bypassing, the outcome is the fetch's outcome.\<close>

lemma getOrFetch_miss:
  assumes "bypassCache opts \<or> \<not> enabled store \<or> cache_lookup store now key = None"
  shows "fst (getOrFetch key fetchFn opts now (store, w)) = fst (fetchFn w) \<and>
         snd (snd (getOrFetch key fetchFn opts now (store, w))) = snd (fetchFn w)"
  using assms by (auto simp: getOrFetch_def split: prod.splits sum.splits)

text \<open>
  After a successful call on the enabled store the key has an entry holding the returned
  value; if the call had to fetch, the entry expires \<open>ttl\<close> after the call.
\<close>

lemma getOrFetch_entry:
  assumes "\<not> bypassCache opts" and "enabled store"
    and "getOrFetch key fetchFn opts now (store, w) = (Inr v, store1, w1)"
  shows "enabled store1 \<and>
         (\<exists>e. map_of (entries store1) key = Some e \<and> val e = v \<and>
              (cache_lookup store now key = None \<longrightarrow> expiresAt e = now + ttl opts))"
proof (cases "cache_lookup store now key")
  case None
  with assms show ?thesis
    by (auto simp: getOrFetch_def map_of_cache_put_same split: prod.splits sum.splits)
next
  case (Some e)
  then have "map_of (entries store) key = Some e"
    by (auto simp: cache_lookup_def split: option.splits if_splits)
  with assms Some show ?thesis
    by (auto simp: getOrFetch_def)
qed

lemma read_through_general:
  assumes en: "enabled store" and nb1: "\<not> bypassCache o1" and nb2: "\<not> bypassCache o2"
    and first: "getOrFetch key f o1 t1 (store, w) = (Inr v, store1, w1)"
    and fresh: "cache_lookup store1 t2 key \<noteq> None"
  shows "\<exists>store2. getOrFetch key f' o2 t2 (store1, w1) = (Inr v, store2, w1) \<and>
           entries store2 = entries store1"
proof -
  from getOrFetch_entry[OF nb1 en first]
  obtain e where en1: "enabled store1" and e: "map_of (entries store1) key = Some e" "val e = v"
    by blast
  from fresh e have "cache_lookup store1 t2 key = Some e"
    by (auto simp: cache_lookup_def split: if_splits)
  from getOrFetch_hit[OF nb2 en1 this, of f' w1] e(2) show ?thesis by simp
qed

lemma fresh_after_miss:
  assumes en: "enabled store" and nb1: "\<not> bypassCache o1"
    and first: "getOrFetch key f o1 t1 (store, w) = (Inr v, store1, w1)"
    and miss: "cache_lookup store t1 key = None"
    and within: "t2 < t1 + ttl o1"
  shows "cache_lookup store1 t2 key \<noteq> None"
proof -
  from getOrFetch_entry[OF nb1 en first] miss
  obtain e where "map_of (entries store1) key = Some e" "expiresAt e = t1 + ttl o1"
    by blast
  with within show ?thesis by (simp add: cache_lookup_def)
qed

lemma recording_tool_apply:
  "recording_tool callTool (lg, w) name args =
     (fst (callTool w name args), (lg @ [(name, args)], snd (callTool w name args)))"
  by (simp add: recording_tool_def split: prod.splits)

text \<open>
  Two identical \<open>getOrders\<close> calls on a client with caching on and no fresh entry for the
  query, the second less than five minutes after the first: one remote call in all.
\<close>

lemma getOrders_twice:
  assumes on: "\<not> cacheDisabled c" "enabled (cache c)"
    and cold: "cache_lookup (cache c) t1 (orders_key options) = None"
    and start: "remote c = ([], w)"
    and first: "getOrders (recording_tool callTool) t1 options c = (Inr v, c1)"
    and within: "t2 < t1 + TTL_FIVE_MINUTES"
  shows "\<exists>c2. getOrders (recording_tool callTool) t2 options c1 = (Inr v, c2) \<and>
           remote c2 = remote c1 \<and>
           fst (remote c2) = [(''get-orders'', orders_args options)]"
proof -
  let ?f = "\<lambda>w. recording_tool callTool w ''get-orders'' (orders_args options)"
  let ?o = "\<lparr>ttl = TTL_FIVE_MINUTES, bypassCache = cacheDisabled c\<rparr>"
  obtain r store1 w1 where
    g: "getOrFetch (orders_key options) ?f ?o t1 (cache c, remote c) = (r, store1, w1)"
    by (metis prod_cases3)
  with first have r: "r = Inr v" and c1: "c1 = c\<lparr>cache := store1, remote := w1\<rparr>"
    by (simp_all add: getOrders_def cached_read_def)
  from getOrFetch_miss[of ?o "cache c" t1 "orders_key options" ?f "remote c"] cold g start
  have w1: "w1 = ([(''get-orders'', orders_args options)],
                  snd (callTool w ''get-orders'' (orders_args options)))"
    by (simp add: recording_tool_apply)
  have nb: "\<not> bypassCache ?o" using on by simp
  from g r
  have g': "getOrFetch (orders_key options) ?f ?o t1 (cache c, remote c) = (Inr v, store1, w1)"
    by simp
  have fresh: "cache_lookup store1 t2 (orders_key options) \<noteq> None"
    using fresh_after_miss[OF on(2) nb g' cold] within by simp
  from read_through_general[OF on(2) nb nb g' fresh, of ?f]
  obtain store2 where
    "getOrFetch (orders_key options) ?f ?o t2 (store1, w1) = (Inr v, store2, w1)"
    by blast
  then have "getOrders (recording_tool callTool) t2 options c1
               = (Inr v, c1\<lparr>cache := store2, remote := w1\<rparr>)"
    using c1 by (simp add: getOrders_def cached_read_def)
  with c1 w1 show ?thesis by simp
qed

text \<open>
  C7. On an enabled store and without \<open>bypassCache\<close>: after \<open>getOrFetch(k, f)\<close> has
  returned \<open>v\<close>, a second \<open>getOrFetch\<close> on the same key, made on the state the first one
  left and while the entry for \<open>k\<close> is still fresh, returns \<open>v\<close> and leaves the outside
  state as it was, whatever fetch function it is given: the fetch is not run. When the
  first call had to fetch, the entry is fresh at every time less than \<open>ttl\<close> after that
  call. Concretely, two identical \<open>getOrders\<close> calls, the first finding no fresh entry and
  the second made less than \<open>TTL_FIVE_MINUTES\<close> after it, leave exactly one call of the
  remote tool in the log.
\<close>

theorem getOrFetch_read_through:
  "(enabled store \<and> \<not> bypassCache o1 \<and> \<not> bypassCache o2 \<and>
    getOrFetch key f o1 t1 (store, w) = (Inr v, store1, w1) \<and>
    cache_lookup store1 t2 key \<noteq> None \<longrightarrow>
      (\<exists>store2. getOrFetch key f' o2 t2 (store1, w1) = (Inr v, store2, w1) \<and>
                 entries store2 = entries store1)) \<and>
   (enabled store \<and> \<not> bypassCache o1 \<and>
    getOrFetch key f o1 t1 (store, w) = (Inr v, store1, w1) \<and>
    cache_lookup store t1 key = None \<and> t2 < t1 + ttl o1 \<longrightarrow>
      cache_lookup store1 t2 key \<noteq> None) \<and>
   (\<not> cacheDisabled c \<and> enabled (cache c) \<and>
    cache_lookup (cache c) t1 (orders_key options) = None \<and>
    remote c = ([], rw) \<and>
    getOrders (recording_tool callTool) t1 options c = (Inr v', c1) \<and>
    t2 < t1 + TTL_FIVE_MINUTES \<longrightarrow>
      (\<exists>c2. getOrders (recording_tool callTool) t2 options c1 = (Inr v', c2) \<and>
             remote c2 = remote c1 \<and>
             fst (remote c2) = [(''get-orders'', orders_args options)]))"
  using read_through_general[of store o1 o2 key f t1 w v store1 w1 t2 f']
    fresh_after_miss[of store o1 key f t1 w v store1 w1 t2]
    getOrders_twice[of c t1 options rw callTool v' c1 t2]
  by blast


text \<open>
  On the empty store: a fetch at time 0 with a TTL of 300, then the same key at time 299.
  The second call is given a fetch function too, and the count of runs stays at 1. On a
  new client: \<open>getOrders\<close> for the open orders at times 0 and 299, with one remote call
  in the log after both.
\<close>

theorem getOrFetch_read_through_witness:
  "enabled empty_store \<and> \<not> bypassCache \<lparr>ttl = 300, bypassCache = False\<rparr> \<and>
   getOrFetch ''orders:status=open'' counting_fetch \<lparr>ttl = 300, bypassCache = False\<rparr> 0
     (empty_store, 0) = (Inr (JStr ''fetched''), warm_store, 1) \<and>
   cache_lookup empty_store 0 ''orders:status=open'' = None \<and>
   (299::int) < 0 + ttl \<lparr>ttl = 300, bypassCache = False\<rparr> \<and>
   cache_lookup warm_store 299 ''orders:status=open'' \<noteq> None \<and>
   (\<exists>store2.
      getOrFetch ''orders:status=open'' counting_fetch \<lparr>ttl = 300, bypassCache = False\<rparr> 299
        (warm_store, 1) = (Inr (JStr ''fetched''), store2, 1) \<and>
      entries store2 = entries warm_store) \<and>
   \<not> cacheDisabled fresh_client \<and> enabled (cache fresh_client) \<and>
   cache_lookup (cache fresh_client) 0 (orders_key open_orders) = None \<and>
   remote fresh_client = ([], 0) \<and>
   getOrders (recording_tool echo_tool) 0 open_orders fresh_client =
     (Inr (JObj [(''status'', JStr ''open'')]),
      snd (getOrders (recording_tool echo_tool) 0 open_orders fresh_client)) \<and>
   (299::int) < 0 + TTL_FIVE_MINUTES \<and>
   (\<exists>c2. getOrders (recording_tool echo_tool) 299 open_orders
            (snd (getOrders (recording_tool echo_tool) 0 open_orders fresh_client))
            = (Inr (JObj [(''status'', JStr ''open'')]), c2) \<and>
         remote c2 =
           remote (snd (getOrders (recording_tool echo_tool) 0 open_orders fresh_client)) \<and>
         fst (remote c2) = [(''get-orders'', orders_args open_orders)]) \<and>
   orders_args open_orders = [(''status'', JStr ''open'')]"
proof -
  let ?o = "\<lparr>ttl = 300, bypassCache = False\<rparr>"
  let ?k = "''orders:status=open''"
  let ?c = fresh_client
  let ?v = "JObj [(''status'', JStr ''open'')]"
  let ?c1 = "snd (getOrders (recording_tool echo_tool) 0 open_orders ?c)"
  have a1: "enabled empty_store" by (simp add: empty_store_def)
  have a2: "\<not> bypassCache ?o" by simp
  have a3: "getOrFetch ?k counting_fetch ?o 0 (empty_store, 0)
              = (Inr (JStr ''fetched''), warm_store, 1)"
    by (simp add: getOrFetch_def cache_lookup_def cache_put_def empty_store_def
          warm_store_def counting_fetch_def)
  have a4: "cache_lookup empty_store 0 ?k = None"
    by (simp add: cache_lookup_def empty_store_def)
  have a5: "(299::int) < 0 + ttl ?o" by simp
  have b1: "\<not> cacheDisabled ?c" by (simp add: fresh_client_def new_client_def)
  have b2: "enabled (cache ?c)" by (simp add: fresh_client_def new_client_def empty_store_def)
  have b3: "cache_lookup (cache ?c) 0 (orders_key open_orders) = None"
    by (simp add: cache_lookup_def fresh_client_def new_client_def empty_store_def)
  have b4: "remote ?c = ([], 0)" by (simp add: fresh_client_def new_client_def)
  have args: "orders_args open_orders = [(''status'', JStr ''open'')]"
    by (simp add: orders_args_def arg_if_def open_orders_def)
  have "fst (getOrders (recording_tool echo_tool) 0 open_orders ?c) = Inr ?v"
    by (simp add: getOrders_def cached_read_def getOrFetch_def cache_lookup_def
          fresh_client_def new_client_def empty_store_def recording_tool_def echo_tool_def args)
  then have b5: "getOrders (recording_tool echo_tool) 0 open_orders ?c = (Inr ?v, ?c1)"
    by (simp add: prod_eq_iff)
  have b6: "(299::int) < 0 + TTL_FIVE_MINUTES" by (simp add: TTL_FIVE_MINUTES_def)
  note inst = getOrFetch_read_through[of empty_store ?o ?o ?k counting_fetch 0 0
      "JStr ''fetched''" warm_store 1 299 counting_fetch ?c open_orders 0 echo_tool ?v ?c1]
  from inst[THEN conjunct2, THEN conjunct1] a1 a2 a3 a4 a5
  have fresh: "cache_lookup warm_store 299 ?k \<noteq> None" by blast
  from inst[THEN conjunct1] a1 a2 a3 fresh
  have second: "\<exists>store2.
      getOrFetch ?k counting_fetch ?o 299 (warm_store, 1) = (Inr (JStr ''fetched''), store2, 1) \<and>
      entries store2 = entries warm_store"
    by blast
  from inst[THEN conjunct2, THEN conjunct2] b1 b2 b3 b4 b5 b6
  have twice: "\<exists>c2. getOrders (recording_tool echo_tool) 299 open_orders ?c1 = (Inr ?v, c2) \<and>
         remote c2 = remote ?c1 \<and>
         fst (remote c2) = [(''get-orders'', orders_args open_orders)]"
    by blast
  from a1 a2 a3 a4 a5 fresh second b1 b2 b3 b4 b5 b6 twice args
  show ?thesis by blast
qed


section \<open>Invalidation\<close>

lemma map_of_filter_key:
  "map_of (filter (\<lambda>p. P (fst p)) es) k = (if P k then map_of es k else None)"
  by (induction es) auto

lemma invalidatePattern_entries:
  "map_of (entries (snd (invalidatePattern pattern store))) k =
     (if prefix pattern k then None else map_of (entries store) k)"
  using map_of_filter_key[where P = "\<lambda>k. \<not> prefix pattern k" and es = "entries store" and k = k]
  by (simp add: invalidatePattern_def Let_def)

lemma not_order_prefix:
  "prefix ''product'' k \<or> prefix ''customer'' k \<Longrightarrow> \<not> prefix ''order'' k"
  by (auto simp: prefix_def)

lemma order_scope:
  "(prefix ''order'' k \<longrightarrow>
      map_of (entries (snd (invalidatePattern ''order'' store))) k = None) \<and>
   (prefix ''product'' k' \<or> prefix ''customer'' k' \<longrightarrow>
      map_of (entries (snd (invalidatePattern ''order'' store))) k' = map_of (entries store) k')"
  using not_order_prefix[of k'] by (simp add: invalidatePattern_entries)

lemma updateOrder_cache:
  "updateOrder callTool orderId updates c = (Inr r, c1) \<Longrightarrow>
     cache c1 = snd (invalidatePattern ''order'' (cache c))"
  by (auto simp: updateOrder_def split: prod.splits sum.splits)

text \<open>
  After a successful \<open>updateOrder\<close> no key of the \<open>order\<close> namespace has an entry, so
  \<open>getOrderById\<close> calls the remote tool, at any time and for any order.
\<close>

lemma refetch_after_updateOrder:
  assumes upd: "updateOrder (recording_tool callTool) orderId updates c = (Inr r, c1)"
    and get: "getOrderById (recording_tool callTool) now orderId' c1 = (res, c2)"
  shows "fst (remote c2) =
           fst (remote c1) @ [(''get-order-by-id'', [(''orderId'', JStr orderId')])] \<and>
         res = fst (callTool (snd (remote c1)) ''get-order-by-id'' [(''orderId'', JStr orderId')])"
proof -
  let ?key = "createCacheKey ''order'' [(''id'', JStr orderId')]"
  let ?f = "\<lambda>w. recording_tool callTool w ''get-order-by-id'' [(''orderId'', JStr orderId')]"
  let ?o = "\<lparr>ttl = TTL_FIVE_MINUTES, bypassCache = cacheDisabled c1\<rparr>"
  from updateOrder_cache[OF upd]
  have "cache c1 = snd (invalidatePattern ''order'' (cache c))" .
  moreover have "prefix ''order'' ?key" by (rule createCacheKey_prefix)
  ultimately have "map_of (entries (cache c1)) ?key = None"
    by (simp add: invalidatePattern_entries)
  then have miss: "cache_lookup (cache c1) now ?key = None"
    by (simp add: cache_lookup_def)
  obtain lg w where rc1: "remote c1 = (lg, w)" by (cases "remote c1")
  from getOrFetch_miss[of ?o "cache c1" now ?key ?f "remote c1"] miss
  have "fst (getOrFetch ?key ?f ?o now (cache c1, remote c1)) = fst (?f (remote c1))"
    "snd (snd (getOrFetch ?key ?f ?o now (cache c1, remote c1))) = snd (?f (remote c1))"
    by simp_all
  with get have "res = fst (?f (remote c1))" "remote c2 = snd (?f (remote c1))"
    by (auto simp: getOrderById_def cached_read_def split: prod.splits)
  then show ?thesis by (simp add: rc1 recording_tool_apply)
qed

text \<open>
  C9. Invalidating with the pattern \<open>order\<close> leaves no entry under any key that begins
  with \<open>order\<close>, and leaves the entry, or absence of one, under every key that begins with
  \<open>product\<close> or \<open>customer\<close> as it was. Consequently, after \<open>updateOrder\<close> has succeeded
  (which ends with this invalidation), \<open>getOrderById\<close>, whose key is in the \<open>order\<close>
  namespace, runs its fetch: the remote tool \<open>get-order-by-id\<close> is called once more and
  its outcome is what is returned.
\<close>

theorem invalidate_order_scope:
  "(prefix ''order'' k \<longrightarrow>
      map_of (entries (snd (invalidatePattern ''order'' store))) k = None) \<and>
   (prefix ''product'' k' \<or> prefix ''customer'' k' \<longrightarrow>
      map_of (entries (snd (invalidatePattern ''order'' store))) k' = map_of (entries store) k') \<and>
   (updateOrder (recording_tool callTool) orderId updates c = (Inr r, c1) \<and>
    getOrderById (recording_tool callTool) now orderId' c1 = (res, c2) \<longrightarrow>
      fst (remote c2) =
        fst (remote c1) @ [(''get-order-by-id'', [(''orderId'', JStr orderId')])] \<and>
      res = fst (callTool (snd (remote c1)) ''get-order-by-id'' [(''orderId'', JStr orderId')]))"
  using order_scope[of k store k']
    refetch_after_updateOrder[of callTool orderId updates c r c1 now orderId' res c2]
  by blast


text \<open>
  On the sample store: the entry under \<open>order:id=42\<close> is gone and the ones under
  \<open>product:id=1\<close> and \<open>customer_orders:id=7\<close> are kept. On the client holding that store: after \<open>updateOrder\<close> on
  order 42, \<open>getOrderById\<close> for order 42 at time 800, before the old entry's expiry,
  calls \<open>get-order-by-id\<close>.
\<close>

theorem invalidate_order_scope_witness:
  "prefix ''order'' ''order:id=42'' \<and>
   map_of (entries sample_store) ''order:id=42'' = Some sample_entry \<and>
   map_of (entries (snd (invalidatePattern ''order'' sample_store))) ''order:id=42'' = None \<and>
   (prefix ''product'' ''product:id=1'' \<or> prefix ''customer'' ''product:id=1'') \<and>
   map_of (entries (snd (invalidatePattern ''order'' sample_store))) ''product:id=1''
     = Some sample_entry \<and>
   (prefix ''product'' ''customer_orders:id=7'' \<or> prefix ''customer'' ''customer_orders:id=7'') \<and>
   map_of (entries (snd (invalidatePattern ''order'' sample_store))) ''customer_orders:id=7''
     = Some sample_entry \<and>
   updateOrder (recording_tool echo_tool) ''42'' [(''note'', JStr ''gift'')] stocked_client =
     (Inr (JObj [(''id'', JStr ''42''), (''note'', JStr ''gift'')]),
      snd (updateOrder (recording_tool echo_tool) ''42'' [(''note'', JStr ''gift'')]
             stocked_client)) \<and>
   fst (remote (snd (getOrderById (recording_tool echo_tool) 800 ''42''
          (snd (updateOrder (recording_tool echo_tool) ''42'' [(''note'', JStr ''gift'')]
                  stocked_client)))))
     = [(''update-order'', [(''id'', JStr ''42''), (''note'', JStr ''gift'')]),
        (''get-order-by-id'', [(''orderId'', JStr ''42'')])] \<and>
   fst (getOrderById (recording_tool echo_tool) 800 ''42''
          (snd (updateOrder (recording_tool echo_tool) ''42'' [(''note'', JStr ''gift'')]
                  stocked_client)))
     = Inr (JObj [(''orderId'', JStr ''42'')])"
proof -
  let ?c1 = "snd (updateOrder (recording_tool echo_tool) ''42'' [(''note'', JStr ''gift'')]
                    stocked_client)"
  let ?get = "getOrderById (recording_tool echo_tool) 800 ''42'' ?c1"
  have p1: "prefix ''order'' ''order:id=42''" by simp
  have p2: "prefix ''product'' ''product:id=1'' \<or> prefix ''customer'' ''product:id=1''"
    by simp
  have p3: "prefix ''product'' ''customer_orders:id=7'' \<or>
            prefix ''customer'' ''customer_orders:id=7''"
    by simp
  have before: "map_of (entries sample_store) ''order:id=42'' = Some sample_entry"
    "map_of (entries sample_store) ''product:id=1'' = Some sample_entry"
    "map_of (entries sample_store) ''customer_orders:id=7'' = Some sample_entry"
    by (simp_all add: sample_store_def empty_store_def)
  have upd: "updateOrder (recording_tool echo_tool) ''42'' [(''note'', JStr ''gift'')]
               stocked_client
             = (Inr (JObj [(''id'', JStr ''42''), (''note'', JStr ''gift'')]), ?c1)"
    by (simp add: prod_eq_iff updateOrder_def recording_tool_def echo_tool_def
          stocked_client_def fresh_client_def new_client_def object_spread_def)
  have r1: "remote ?c1 = ([(''update-order'', [(''id'', JStr ''42''), (''note'', JStr ''gift'')])], 1)"
    by (simp add: updateOrder_def recording_tool_def echo_tool_def
          stocked_client_def fresh_client_def new_client_def object_spread_def)
  have get: "?get = (fst ?get, snd ?get)" by simp
  note inst = invalidate_order_scope[of "''order:id=42''" sample_store "''product:id=1''"
      echo_tool "''42''" "[(''note'', JStr ''gift'')]" stocked_client
      "JObj [(''id'', JStr ''42''), (''note'', JStr ''gift'')]" ?c1 800 "''42''"
      "fst ?get" "snd ?get"]
  from inst[THEN conjunct1] p1
  have gone: "map_of (entries (snd (invalidatePattern ''order'' sample_store))) ''order:id=42''
                = None"
    by blast
  from inst[THEN conjunct2, THEN conjunct1] p2 before(2)
  have kept: "map_of (entries (snd (invalidatePattern ''order'' sample_store))) ''product:id=1''
                = Some sample_entry"
    by simp
  from invalidate_order_scope[of "''order:id=42''" sample_store "''customer_orders:id=7''",
         THEN conjunct2, THEN conjunct1] p3 before(3)
  have kept': "map_of (entries (snd (invalidatePattern ''order'' sample_store)))
                 ''customer_orders:id=7'' = Some sample_entry"
    by simp
  from inst[THEN conjunct2, THEN conjunct2] upd get
  have "fst (remote (snd ?get)) =
          fst (remote ?c1) @ [(''get-order-by-id'', [(''orderId'', JStr ''42'')])]"
    and "fst ?get = fst (echo_tool (snd (remote ?c1)) ''get-order-by-id''
                          [(''orderId'', JStr ''42'')])"
    by blast+
  then have lg: "fst (remote (snd ?get)) =
       [(''update-order'', [(''id'', JStr ''42''), (''note'', JStr ''gift'')]),
        (''get-order-by-id'', [(''orderId'', JStr ''42'')])]"
    and res: "fst ?get = Inr (JObj [(''orderId'', JStr ''42'')])"
    by (simp_all add: r1 echo_tool_def)
  from p1 before(1) gone p2 kept p3 kept' upd lg res show ?thesis by blast
qed

section \<open>Mutations\<close>

text \<open>
  C5. Each of the four mutations returns what its remote call returned, and the cache
  after it is determined by that outcome: when the remote call is rejected the cache is
  exactly the one before (no invalidation, entries and counters untouched), and when it
  resolves the cache is the one before with the namespace pattern invalidated. The
  invalidation is applied in the branch that has the resolved value in hand, so it
  follows the remote call and never precedes it.
\<close>

theorem mutations_invalidate_after_success:
  "fst (updateOrder callTool orderId updates c) =
     fst (callTool (remote c) ''update-order''
            (object_spread [(''id'', JStr orderId)] updates)) \<and>
   cache (snd (updateOrder callTool orderId updates c)) =
     (case fst (callTool (remote c) ''update-order''
                  (object_spread [(''id'', JStr orderId)] updates)) of
        Inl e \<Rightarrow> cache c
      | Inr r \<Rightarrow> snd (invalidatePattern ''order'' (cache c))) \<and>
   fst (updateFulfillmentTracking callTool fulfillmentId trackingNumber options c) =
     fst (callTool (remote c) ''update-fulfillment-tracking''
            (object_spread
               [(''fulfillmentId'', JStr fulfillmentId),
                (''trackingNumber'', JStr trackingNumber)] options)) \<and>
   cache (snd (updateFulfillmentTracking callTool fulfillmentId trackingNumber options c)) =
     (case fst (callTool (remote c) ''update-fulfillment-tracking''
                  (object_spread
                     [(''fulfillmentId'', JStr fulfillmentId),
                      (''trackingNumber'', JStr trackingNumber)] options)) of
        Inl e \<Rightarrow> cache c
      | Inr r \<Rightarrow> snd (invalidatePattern ''order'' (cache c))) \<and>
   fst (createProduct callTool product c) =
     fst (callTool (remote c) ''createProduct'' product) \<and>
   cache (snd (createProduct callTool product c)) =
     (case fst (callTool (remote c) ''createProduct'' product) of
        Inl e \<Rightarrow> cache c
      | Inr r \<Rightarrow> snd (invalidatePattern ''products'' (cache c))) \<and>
   fst (updateCustomer callTool customerId updates' c) =
     fst (callTool (remote c) ''update-customer''
            (object_spread [(''id'', JStr customerId)] updates')) \<and>
   cache (snd (updateCustomer callTool customerId updates' c)) =
     (case fst (callTool (remote c) ''update-customer''
                  (object_spread [(''id'', JStr customerId)] updates')) of
        Inl e \<Rightarrow> cache c
      | Inr r \<Rightarrow> snd (invalidatePattern ''customer'' (cache c)))"
  by (simp add: updateOrder_def updateFulfillmentTracking_def createProduct_def
        updateCustomer_def split: prod.splits sum.splits)

text \<open>
  On the client holding the sample store: \<open>updateOrder\<close> through the tool that rejects
  every call leaves the cache as it was, entry \<open>order:id=42\<close> included; through the tool
  that answers, the cache is the invalidated one and that entry is gone.
\<close>

theorem mutations_invalidate_after_success_witness:
  "fst (updateOrder (recording_tool refusing_tool) ''42'' [] stocked_client)
     = Inl (ToolError ''refused'') \<and>
   cache (snd (updateOrder (recording_tool refusing_tool) ''42'' [] stocked_client))
     = sample_store \<and>
   fst (updateOrder (recording_tool echo_tool) ''42'' [] stocked_client)
     = Inr (JObj [(''id'', JStr ''42'')]) \<and>
   cache (snd (updateOrder (recording_tool echo_tool) ''42'' [] stocked_client))
     = snd (invalidatePattern ''order'' sample_store) \<and>
   map_of (entries sample_store) ''order:id=42'' = Some sample_entry \<and>
   map_of (entries (snd (invalidatePattern ''order'' sample_store))) ''order:id=42'' = None"
proof -
  have c: "cache stocked_client = sample_store" "remote stocked_client = ([], 0)"
    by (simp_all add: stocked_client_def fresh_client_def new_client_def)
  have sp: "object_spread [(''id'', JStr ''42'')] [] = [(''id'', JStr ''42'')]"
    by (simp add: object_spread_def)
  have refused: "fst (recording_tool refusing_tool ([], 0) ''update-order'' [(''id'', JStr ''42'')])
                   = Inl (ToolError ''refused'')"
    by (simp add: recording_tool_def refusing_tool_def)
  have answered: "fst (recording_tool echo_tool ([], 0) ''update-order'' [(''id'', JStr ''42'')])
                    = Inr (JObj [(''id'', JStr ''42'')])"
    by (simp add: recording_tool_def echo_tool_def)
  note no = mutations_invalidate_after_success[of "recording_tool refusing_tool" "''42''" "[]"
      stocked_client, THEN conjunct1]
    mutations_invalidate_after_success[of "recording_tool refusing_tool" "''42''" "[]"
      stocked_client, THEN conjunct2, THEN conjunct1]
  note yes = mutations_invalidate_after_success[of "recording_tool echo_tool" "''42''" "[]"
      stocked_client, THEN conjunct1]
    mutations_invalidate_after_success[of "recording_tool echo_tool" "''42''" "[]"
      stocked_client, THEN conjunct2, THEN conjunct1]
  have e1: "map_of (entries sample_store) ''order:id=42'' = Some sample_entry"
    by (simp add: sample_store_def empty_store_def)
  have e2: "map_of (entries (snd (invalidatePattern ''order'' sample_store))) ''order:id=42''
              = None"
    by (simp add: invalidatePattern_entries)
  from no yes e1 e2 show ?thesis
    by (simp add: c sp refused answered)
qed

end
